theory Spec2Isabelle
  imports Complex_Main "HOL-Library.Multiset"
begin

section \<open>Text primitives of the Python source\<close>

text \<open>
  Python strings are modelled as \<open>string\<close> (lists of \<open>char\<close>), read as ASCII text:
  \<open>str.lower\<close> maps \<open>A\<close>..\<open>Z\<close> to \<open>a\<close>..\<open>z\<close> and leaves every other character alone,
  and the white space of \<open>str.strip\<close>, \<open>str.split\<close> and the regular expression class
  \<open>\s\<close> is the ASCII part of Python's: tab, line feed, vertical tab, form feed, carriage
  return, the four separators 0x1C..0x1F and the blank.
\<close>

definition is_space :: "char \<Rightarrow> bool" where
  "is_space c \<longleftrightarrow>
     c \<in> set [CHR 0x09, CHR 0x0A, CHR 0x0B, CHR 0x0C, CHR 0x0D,
               CHR 0x1C, CHR 0x1D, CHR 0x1E, CHR 0x1F, CHR 0x20]"

definition lower_char :: "char \<Rightarrow> char" where
  "lower_char c =
     (let n = (of_char c :: nat) in if 65 \<le> n \<and> n \<le> 90 then char_of (n + 32) else c)"

definition lower :: "string \<Rightarrow> string" where
  "lower s = map lower_char s"

definition lstrip :: "string \<Rightarrow> string" where
  "lstrip s = dropWhile is_space s"

definition rstrip :: "string \<Rightarrow> string" where
  "rstrip s = rev (dropWhile is_space (rev s))"

definition strip :: "string \<Rightarrow> string" where
  "strip s = rstrip (lstrip s)"

text \<open>\<open>s.replace(",", " ")\<close>.\<close>

definition replace_comma :: "string \<Rightarrow> string" where
  "replace_comma s = map (\<lambda>c. if c = CHR '','' then CHR '' '' else c) s"

text \<open>\<open>re.sub(r"\s+", " ", s)\<close>: every maximal run of white space becomes one blank.\<close>

fun collapse_ws :: "string \<Rightarrow> string" where
  "collapse_ws [] = []"
| "collapse_ws [c] = [if is_space c then CHR '' '' else c]"
| "collapse_ws (c # d # cs) =
     (if is_space c \<and> is_space d then collapse_ws (d # cs)
      else (if is_space c then CHR '' '' else c) # collapse_ws (d # cs))"

text \<open>
  \<open>re.sub(r"^the\s+", "", s)\<close>: without the MULTILINE flag the anchor matches at the
  start only, so at most one occurrence is removed: the word and all the white space
  after it (the quantifier is greedy), when at least one white space follows.
\<close>

definition remove_the :: "string \<Rightarrow> string" where
  "remove_the s =
     (if take 3 s = ''the'' \<and> drop 3 s \<noteq> [] \<and> is_space (hd (drop 3 s))
      then dropWhile is_space (drop 3 s) else s)"

text \<open>\<open>s.startswith(p)\<close> and \<open>t in s\<close> (substring).\<close>

definition startswith :: "string \<Rightarrow> string \<Rightarrow> bool" where
  "startswith s p \<longleftrightarrow> take (length p) s = p"

fun contains :: "string \<Rightarrow> string \<Rightarrow> bool" where
  "contains [] t = (t = [])"
| "contains (c # cs) t = (startswith (c # cs) t \<or> contains cs t)"

text \<open>\<open>s.split()\<close>: the maximal runs of non-white-space characters, in order.\<close>

fun split_acc :: "string \<Rightarrow> string \<Rightarrow> string list" where
  "split_acc w [] = (if w = [] then [] else [w])"
| "split_acc w (c # cs) =
     (if is_space c then (if w = [] then split_acc [] cs else w # split_acc [] cs)
      else split_acc (w @ [c]) cs)"

definition split :: "string \<Rightarrow> string list" where
  "split s = split_acc [] s"

section \<open>Table cells\<close>

text \<open>
  A cell of a pandas table as the functions below receive it: \<open>None\<close>, the missing value
  NaN, a string, an integer or a boolean. Finite floating-point cells are outside the
  model (their \<open>str\<close> is floating-point formatting).
\<close>

datatype cell = CNone | CNaN | CStr string | CInt int | CBool bool

text \<open>\<open>pd.isna\<close>, Python truthiness, and \<open>str\<close>.\<close>

fun isna :: "cell \<Rightarrow> bool" where
  "isna CNone = True"
| "isna CNaN = True"
| "isna _ = False"

fun truthy :: "cell \<Rightarrow> bool" where
  "truthy CNone = False"
| "truthy CNaN = True"
| "truthy (CStr s) = (s \<noteq> [])"
| "truthy (CInt n) = (n \<noteq> 0)"
| "truthy (CBool b) = b"

text \<open>\<open>isinstance(x, str)\<close>.\<close>

fun is_str :: "cell \<Rightarrow> bool" where
  "is_str (CStr s) = True"
| "is_str _ = False"

definition digit_char :: "nat \<Rightarrow> char" where
  "digit_char d = char_of (48 + d)"

fun digits :: "nat \<Rightarrow> string" where
  "digits n = (if n < 10 then [digit_char n] else digits (n div 10) @ [digit_char (n mod 10)])"

declare digits.simps [simp del]

fun py_str :: "cell \<Rightarrow> string" where
  "py_str CNone = ''None''"
| "py_str CNaN = ''nan''"
| "py_str (CStr s) = s"
| "py_str (CInt n) = (if n < 0 then CHR ''-'' # digits (nat (- n)) else digits (nat n))"
| "py_str (CBool b) = (if b then ''True'' else ''False'')"

section \<open>The normalizer of \<open>processors/merge_rankings.py\<close>\<close>

text \<open>The body of \<open>normalize_name\<close> after the guard, on the text of the cell.\<close>

definition normalize_text_steps :: "string \<Rightarrow> string" where
  "normalize_text_steps s = remove_the (strip (collapse_ws (replace_comma (lower (strip s)))))"

definition normalize_name :: "cell \<Rightarrow> string" where
  "normalize_name name =
     (if isna name \<or> \<not> truthy name then [] else normalize_text_steps (py_str name))"

section \<open>The normalizer of \<open>scripts/merge_uni.py\<close>\<close>

text \<open>The exceptions that the functions modelled here can raise.\<close>

datatype error = AttributeError | TypeError | IndexError

text \<open>
  \<open>unicodedata.normalize('NFKD', name).encode('ASCII', 'ignore').decode('utf-8')\<close> on
  ASCII text keeps the 7-bit characters and drops every other one.
\<close>

definition ascii_only :: "string \<Rightarrow> string" where
  "ascii_only s = filter (\<lambda>c. (of_char c :: nat) < 128) s"

text \<open>\<open>re.sub(r'[^a-z0-9\s]', '', name)\<close>.\<close>

definition is_lower_alnum :: "char \<Rightarrow> bool" where
  "is_lower_alnum c \<longleftrightarrow>
     (let n = (of_char c :: nat) in (97 \<le> n \<and> n \<le> 122) \<or> (48 \<le> n \<and> n \<le> 57))"

definition keep_alnum_space :: "string \<Rightarrow> string" where
  "keep_alnum_space s = filter (\<lambda>c. is_lower_alnum c \<or> is_space c) s"

definition uni_steps :: "string \<Rightarrow> string" where
  "uni_steps s = strip (collapse_ws (keep_alnum_space (ascii_only (strip (lower s)))))"

text \<open>
  The script's \<open>normalize_name\<close> starts with \<open>name.lower()\<close>: a cell that is not a string
  has no such method and the call raises \<open>AttributeError\<close>.
\<close>

fun normalize_name_uni :: "cell \<Rightarrow> error + string" where
  "normalize_name_uni (CStr s) = Inr (uni_steps s)"
| "normalize_name_uni _ = Inl AttributeError"


section \<open>\<open>normalize_country\<close> and \<open>normalize_nature_of_running\<close>\<close>

definition country_map :: "(string \<times> string) list" where
  "country_map =
     [(''United States'', ''United States of America''),
      (''USA'', ''United States of America''),
      (''US'', ''United States of America''),
      (''UK'', ''United Kingdom''),
      (''South Korea'', ''Republic of Korea''),
      (''North Korea'', ''Democratic People's Republic of Korea''),
      (''Netherlands'', ''Netherlands''),
      (''Holland'', ''Netherlands''),
      (''Macao'', ''Macau'')]"

definition normalize_country :: "cell \<Rightarrow> string" where
  "normalize_country country =
     (if isna country then []
      else let c = strip (py_str country)
           in strip (case map_of country_map c of Some v \<Rightarrow> v | None \<Rightarrow> c))"

text \<open>The function returns \<open>"Private"\<close>, \<open>"Public"\<close> or \<open>None\<close>.\<close>

definition normalize_nature_of_running :: "cell \<Rightarrow> string option" where
  "normalize_nature_of_running status =
     (if isna status then None
      else let s = lower (strip (py_str status))
           in if \<exists>term \<in> set [''private'', ''not for profit'', ''independent'', ''proprietary''].
                   contains s term
              then Some ''Private''
              else if \<exists>term \<in> set [''public'', ''government'', ''state'', ''federal''].
                        contains s term
              then Some ''Public''
              else None)"

section \<open>Bracket aliases and name keys\<close>

text \<open>
  \<open>re.match(r"^(.*?)\s*\((.*?)\)\s*$", name)\<close> on a stripped string. The dot matches any
  character but the line feed. The string ends with a character that is not white space,
  so the closing parenthesis of the pattern is the last character; the lazy first group
  makes the opening one the first parenthesis for which both groups are free of line
  feeds, and cuts the first group before the white space in front of it.
  \<open>paren_scan pre rest\<close> walks over the string with \<open>pre\<close> the part already passed.
\<close>

definition no_newline :: "string \<Rightarrow> bool" where
  "no_newline s \<longleftrightarrow> CHR 0x0A \<notin> set s"

fun paren_scan :: "string \<Rightarrow> string \<Rightarrow> (string \<times> string) option" where
  "paren_scan pre [] = None"
| "paren_scan pre (c # cs) =
     (if c = CHR ''('' \<and> cs \<noteq> [] \<and> last cs = CHR '')'' \<and>
         no_newline (rstrip pre) \<and> no_newline (butlast cs)
      then Some (rstrip pre, butlast cs)
      else paren_scan (pre @ [c]) cs)"

definition ignore_patterns :: "string list" where
  "ignore_patterns =
     [''usa'', ''uk'', ''u.k.'', ''us'', ''u.s.'', ''china'', ''prc'', ''canada'',
      ''australia'', ''nz'', ''n.z.'', ''singapore'', ''sg'', ''hong kong'', ''hk'',
      ''taiwan'', ''japan'', ''jp'', ''south korea'', ''korea'', ''india'', ''in'',
      ''germany'', ''de'', ''france'', ''fr'',
      ''main campus'', ''main campus.'', ''main'', ''branch'', ''branch campus'',
      ''campus'', ''state'', ''city'', ''center'', ''centre'',
      ''formerly'', ''f.k.a'', ''f.k.a.'', ''aka'', ''previously'', ''merged from'']"

definition extract_base_and_alias :: "cell \<Rightarrow> string \<times> string" where
  "extract_base_and_alias name =
     (case name of
        CStr n \<Rightarrow>
          (let name' = lower (strip n) in
           case paren_scan [] name' of
             Some (g1, g2) \<Rightarrow>
               (let base = strip g1; alias = strip g2 in
                if lower alias \<in> set ignore_patterns then (base, [])
                else if \<exists>pattern \<in> set ignore_patterns. startswith (lower alias) pattern
                then (base, [])
                else (base, alias))
           | None \<Rightarrow> (name', []))
      | _ \<Rightarrow> ([], []))"

definition disallowed_short :: "string list" where
  "disallowed_short =
     [''usa'', ''uk'', ''us'', ''prc'', ''nz'', ''sg'', ''hk'', ''de'', ''fr'', ''jp'', ''in'']"

definition abbreviations :: "(string \<times> string) list" where
  "abbreviations =
     [(''mit'', ''massachusetts institute of technology''),
      (''caltech'', ''california institute of technology''),
      (''eth zurich'', ''swiss federal institute of technology zurich''),
      (''nus'', ''national university of singapore''),
      (''ntu singapore'', ''nanyang technological university singapore''),
      (''ucl'', ''university college london''),
      (''uc berkeley'', ''university of california berkeley''),
      (''ucla'', ''university of california los angeles''),
      (''usc'', ''university of southern california''),
      (''ucsd'', ''university of california san diego''),
      (''nyu'', ''new york university''),
      (''uc'', ''university of california''),
      (''lse'', ''london school of economics''),
      (''eth'', ''swiss federal institute of technology'')]"

text \<open>The four \<open>keys.add\<close> of \<open>build_name_keys\<close>, in the order of the source.\<close>

definition build_name_keys :: "cell \<Rightarrow> string set" where
  "build_name_keys name =
     (let (base, alias) = extract_base_and_alias name;
          base_norm = normalize_name (CStr base);
          alias_norm = (if alias \<noteq> [] then normalize_name (CStr alias) else []);
          name_norm = normalize_name name
      in (if name_norm \<noteq> [] then {name_norm} else {}) \<union>
         (if base_norm \<noteq> [] then {base_norm} else {}) \<union>
         (if alias_norm \<noteq> [] \<and> length alias_norm > 0
          then (if length alias_norm > 2 \<and> lower alias_norm \<notin> set disallowed_short
                then {alias_norm} else {}) \<union>
               (case map_of abbreviations alias_norm of Some e \<Rightarrow> {e} | None \<Rightarrow> {})
          else {}))"

section \<open>The bracket-aware matcher\<close>

text \<open>
  A row of the table that \<open>deduplicate_fuzzy\<close> receives: the columns \<open>Name\<close> and
  \<open>Country\<close>, and the other columns (ranks, nature, coordinates) in table order.
  \<open>krow\<close> is such a row with the temporary column \<open>_name_keys\<close>.
\<close>

record row =
  Name :: cell
  Country :: cell
  others :: "cell list"

record krow = row +
  name_keys :: "string set"

definition common_words :: "string set" where
  "common_words =
     {''university'', ''college'', ''institute'', ''school'', ''academy'', ''center'', ''centre''}"

text \<open>
  \<open>str(row.get("Country", "")).strip().lower() if row.get("Country") else ""\<close>.
\<close>

definition country_of :: "krow \<Rightarrow> string" where
  "country_of r = (if truthy (Country r) then lower (strip (py_str (Country r))) else [])"

definition is_same_university :: "krow \<Rightarrow> krow \<Rightarrow> bool" where
  "is_same_university row_a row_b =
     (let country_a = country_of row_a; country_b = country_of row_b in
      if country_a = [] \<or> country_b = [] \<or> country_a \<noteq> country_b then False
      else let intersection = name_keys row_a \<inter> name_keys row_b in
           if intersection = {} then False
           else \<exists>key \<in> intersection. \<not> set (split key) \<subseteq> common_words)"

section \<open>\<open>deduplicate_fuzzy\<close>\<close>

text \<open>\<open>df["_name_keys"] = df["Name"].apply(build_name_keys)\<close>.\<close>

definition with_keys :: "row \<Rightarrow> krow" where
  "with_keys r =
     \<lparr>Name = Name r, Country = Country r, others = others r,
      name_keys = build_name_keys (Name r)\<rparr>"

text \<open>
  The inner loop over \<open>j\<close> of the grouping pass, for the seed \<open>i\<close>: the indices still to
  visit, the set \<open>used_indices\<close> and the group built so far.
\<close>

fun scan_matches :: "krow list \<Rightarrow> nat \<Rightarrow> nat list \<Rightarrow> nat set \<Rightarrow> nat list \<Rightarrow> nat list \<times> nat set" where
  "scan_matches df i [] used grp = (grp, used)"
| "scan_matches df i (j # js) used grp =
     (if j \<in> used then scan_matches df i js used grp
      else if is_same_university (df ! i) (df ! j)
      then scan_matches df i js (insert j used) (grp @ [j])
      else scan_matches df i js used grp)"

text \<open>The outer loop over \<open>i\<close>, with \<open>used_indices\<close> and \<open>merged_groups\<close>.\<close>

fun group_rows :: "krow list \<Rightarrow> nat list \<Rightarrow> nat set \<Rightarrow> nat list list \<Rightarrow> nat list list" where
  "group_rows df [] used merged_groups = merged_groups"
| "group_rows df (i # is) used merged_groups =
     (if i \<in> used then group_rows df is used merged_groups
      else let (grp, used') = scan_matches df i [i + 1 ..< length df] (insert i used) [i]
           in group_rows df is used' (merged_groups @ [grp]))"

definition merged_groups :: "krow list \<Rightarrow> nat list list" where
  "merged_groups df = group_rows df [0 ..< length df] {} []"

text \<open>
  \<open>row.notna().sum()\<close>: the cells of the row that are not missing. The cell of the column
  \<open>_name_keys\<close> holds a set, which is never missing.
\<close>

definition score :: "krow \<Rightarrow> nat" where
  "score r = length (filter (\<lambda>c. \<not> isna c) (Name r # Country r # others r)) + 1"

text \<open>\<open>alt_row.get(col)\<close> for the \<open>k\<close>-th of the other columns.\<close>

definition get_col :: "krow \<Rightarrow> nat \<Rightarrow> cell" where
  "get_col r k = (if k < length (others r) then others r ! k else CNone)"

text \<open>\<open>pd.notna(alt_val) and str(alt_val).strip() != ""\<close>.\<close>

definition usable :: "cell \<Rightarrow> bool" where
  "usable a \<longleftrightarrow> \<not> isna a \<and> strip (py_str a) \<noteq> []"

text \<open>
  One column of the representative: when its cell is missing or the empty string, the
  first usable cell of the siblings, in their order, replaces it.
\<close>

definition fill_value :: "cell \<Rightarrow> cell list \<Rightarrow> cell" where
  "fill_value v alts =
     (if isna v \<or> v = CStr []
      then (case find usable alts of Some a \<Rightarrow> a | None \<Rightarrow> v)
      else v)"

text \<open>
  \<open>group_with_scores.sort(key=lambda x: x[2], reverse=True)\<close>: Python's sort is stable,
  also with \<open>reverse=True\<close>, so it is a stable sort on the negated score.
\<close>

definition sort_by_score :: "(nat \<times> krow \<times> nat) list \<Rightarrow> (nat \<times> krow \<times> nat) list" where
  "sort_by_score gws = sort_key (\<lambda>(idx, r, sc). - int sc) gws"

text \<open>
  The body of the loop over the groups, on the rows of one group with their indices.
  A group of one row is kept as it is. For a longer group, \<open>group_with_scores[0]\<close>
  raises \<open>IndexError\<close> when the group is empty, and the line of the merge log
  \<open>" | ".join([df.iloc[idx]["Name"] for idx in group_indices])\<close> raises \<open>TypeError\<close>
  unless the \<open>Name\<close> of every row of the group is a string; the cells are filled after
  that.
\<close>

definition merge_group :: "(nat \<times> krow) list \<Rightarrow> error + krow" where
  "merge_group grp =
     (if length grp = 1 then Inr (snd (hd grp))
      else case sort_by_score (map (\<lambda>(idx, r). (idx, r, score r)) grp) of
             [] \<Rightarrow> Inl IndexError
           | (representative_idx, representative, sc) # alts \<Rightarrow>
               if \<not> list_all (\<lambda>(idx, r). is_str (Name r)) grp then Inl TypeError
               else Inr (representative
                 \<lparr>others := map (\<lambda>k. fill_value (others representative ! k)
                                        (map (\<lambda>(alt_idx, alt_row, sc'). get_col alt_row k) alts))
                               [0 ..< length (others representative)]\<rparr>))"

text \<open>
  The loop over \<open>merged_groups\<close> that builds \<open>keep_rows\<close>: the first exception ends it.
\<close>

fun collect_keep_rows :: "krow list \<Rightarrow> nat list list \<Rightarrow> error + krow list" where
  "collect_keep_rows df [] = Inr []"
| "collect_keep_rows df (group_indices # groups) =
     (case merge_group (map (\<lambda>idx. (idx, df ! idx)) group_indices) of
        Inl e \<Rightarrow> Inl e
      | Inr kept \<Rightarrow>
          (case collect_keep_rows df groups of
             Inl e \<Rightarrow> Inl e
           | Inr keep_rows \<Rightarrow> Inr (kept # keep_rows)))"

text \<open>\<open>result.drop(columns=cols_to_drop)\<close>.\<close>

definition drop_keys :: "krow \<Rightarrow> row" where
  "drop_keys r = \<lparr>Name = Name r, Country = Country r, others = others r\<rparr>"

definition deduplicate_fuzzy :: "row list \<Rightarrow> error + row list" where
  "deduplicate_fuzzy rows =
     (let df = map with_keys rows in
      case collect_keep_rows df (merged_groups df) of
        Inl e \<Rightarrow> Inl e
      | Inr keep_rows \<Rightarrow> Inr (map drop_keys keep_rows))"

section \<open>\<open>merge_datasets\<close>\<close>

text \<open>
  A row of the THE or US News table after cleaning (\<open>Name\<close>, \<open>country\<close>, the rank column,
  \<open>name_normalized\<close>), a row of the QS table, and a dictionary of \<open>merged_list\<close>.
  \<open>country\<close> and \<open>name_normalized\<close> are the strings the normalizers returned.
\<close>

record src_row =
  s_Name :: cell
  s_country :: string
  s_rank :: cell
  s_name_normalized :: string

record qs_row =
  q_Name :: cell
  q_country :: string
  q_rank :: cell
  q_status :: cell
  q_Latitude :: cell
  q_Longitude :: cell
  q_name_normalized :: string

record merged =
  m_Name :: cell
  m_country :: string
  m_name_normalized :: string
  m_qs_rank :: cell
  m_the_rank :: cell
  m_usnews_rank :: cell
  m_status :: cell
  m_Latitude :: cell
  m_Longitude :: cell

text \<open>
  \<open>qs_df.to_dict("records")\<close>: the dictionaries of the QS rows have no key \<open>the_rank\<close> or
  \<open>usnews_rank\<close>; such a key reads as NaN in the table built from the list at the end.
\<close>

definition of_qs :: "qs_row \<Rightarrow> merged" where
  "of_qs q =
     \<lparr>m_Name = q_Name q, m_country = q_country q, m_name_normalized = q_name_normalized q,
      m_qs_rank = q_rank q, m_the_rank = CNaN, m_usnews_rank = CNaN,
      m_status = q_status q, m_Latitude = q_Latitude q, m_Longitude = q_Longitude q\<rparr>"

type_synonym lookup = "string \<times> string \<rightharpoonup> nat"

fun create_lookup_from :: "nat \<Rightarrow> merged list \<Rightarrow> lookup \<Rightarrow> lookup" where
  "create_lookup_from i [] lookup = lookup"
| "create_lookup_from i (record # records) lookup =
     create_lookup_from (i + 1) records
       (lookup((m_country record, m_name_normalized record) \<mapsto> i))"

definition create_lookup_map :: "merged list \<Rightarrow> lookup" where
  "create_lookup_map records = create_lookup_from 0 records Map.empty"

definition new_the_row :: "src_row \<Rightarrow> merged" where
  "new_the_row the_row =
     \<lparr>m_Name = s_Name the_row, m_country = s_country the_row,
      m_name_normalized = s_name_normalized the_row,
      m_qs_rank = CNone, m_the_rank = s_rank the_row, m_usnews_rank = CNone,
      m_status = CNone, m_Latitude = CNone, m_Longitude = CNone\<rparr>"

definition new_usnews_row :: "src_row \<Rightarrow> merged" where
  "new_usnews_row usnews_row =
     \<lparr>m_Name = s_Name usnews_row, m_country = s_country usnews_row,
      m_name_normalized = s_name_normalized usnews_row,
      m_qs_rank = CNone, m_the_rank = CNone, m_usnews_rank = s_rank usnews_row,
      m_status = CNone, m_Latitude = CNone, m_Longitude = CNone\<rparr>"

text \<open>
  One iteration of each of the two loops. The lookup map is built before the loop and
  is not changed by it; \<open>merged_list\<close> only grows, so an index of the map stays in range.
\<close>

definition the_step :: "lookup \<Rightarrow> merged list \<Rightarrow> src_row \<Rightarrow> merged list" where
  "the_step qs_lookup merged_list the_row =
     (case qs_lookup (s_country the_row, s_name_normalized the_row) of
        Some i \<Rightarrow> merged_list[i := (merged_list ! i)\<lparr>m_the_rank := s_rank the_row\<rparr>]
      | None \<Rightarrow> merged_list @ [new_the_row the_row])"

definition usnews_step :: "lookup \<Rightarrow> merged list \<Rightarrow> src_row \<Rightarrow> merged list" where
  "usnews_step merged_lookup merged_list usnews_row =
     (case merged_lookup (s_country usnews_row, s_name_normalized usnews_row) of
        Some i \<Rightarrow> merged_list[i := (merged_list ! i)\<lparr>m_usnews_rank := s_rank usnews_row\<rparr>]
      | None \<Rightarrow> merged_list @ [new_usnews_row usnews_row])"

definition merge_the :: "merged list \<Rightarrow> src_row list \<Rightarrow> merged list" where
  "merge_the merged_list the_df = foldl (the_step (create_lookup_map merged_list)) merged_list the_df"

definition merge_usnews :: "merged list \<Rightarrow> src_row list \<Rightarrow> merged list" where
  "merge_usnews merged_list usnews_df =
     foldl (usnews_step (create_lookup_map merged_list)) merged_list usnews_df"

definition merge_datasets :: "qs_row list \<Rightarrow> src_row list \<Rightarrow> src_row list \<Rightarrow> merged list" where
  "merge_datasets qs_df the_df usnews_df =
     merge_usnews (merge_the (map of_qs qs_df) the_df) usnews_df"

section \<open>The deduplication loop of \<open>scripts/merge_uni.py\<close>\<close>

text \<open>
  A row of \<open>all_unis\<close> and a dictionary of \<open>unique_records\<close>. \<open>fuzz.ratio\<close> belongs to
  the library rapidfuzz and is a parameter \<open>ratio\<close> of the model, with values from 0
  to 100.
\<close>

record uni_row =
  u_name :: cell
  u_name_normalized :: string
  u_country :: cell
  u_source :: string

record uni_record =
  r_name :: cell
  r_name_normalized :: string
  r_country :: cell
  r_sources :: "string set"

definition similarity_threshold :: real where
  "similarity_threshold = 90"

text \<open>The update of the first record whose \<open>name_normalized\<close> is \<open>matched_name\<close>.\<close>

fun update_first :: "string \<Rightarrow> uni_row \<Rightarrow> uni_record list \<Rightarrow> uni_record list" where
  "update_first matched_name row [] = []"
| "update_first matched_name row (record # records) =
     (if r_name_normalized record = matched_name
      then (let record' = record\<lparr>r_sources := insert (u_source row) (r_sources record)\<rparr> in
            if u_country row \<noteq> CStr ''Unknown'' \<and> r_country record' = CStr ''Unknown''
            then record'\<lparr>r_country := u_country row\<rparr>
            else record') # records
      else record # update_first matched_name row records)"

text \<open>
  The body of the loop, on the pair (\<open>seen_names\<close>, \<open>unique_records\<close>).
  \<open>if matched_name:\<close> tests the truth value of the name found: \<open>None\<close> and the empty
  string both take the \<open>else\<close> branch.
\<close>

definition uni_step ::
  "(string \<Rightarrow> string \<Rightarrow> real) \<Rightarrow> string list \<times> uni_record list \<Rightarrow> uni_row \<Rightarrow>
     string list \<times> uni_record list" where
  "uni_step ratio state row =
     (let (seen_names, unique_records) = state;
          matched_name = find (\<lambda>existing_normalized.
              ratio (u_name_normalized row) existing_normalized \<ge> similarity_threshold) seen_names
      in case matched_name of
           Some m \<Rightarrow>
             if m \<noteq> [] then (seen_names, update_first m row unique_records)
             else (seen_names @ [u_name_normalized row],
                   unique_records @ [\<lparr>r_name = u_name row, r_name_normalized = u_name_normalized row,
                                      r_country = u_country row, r_sources = {u_source row}\<rparr>])
         | None \<Rightarrow>
             (seen_names @ [u_name_normalized row],
              unique_records @ [\<lparr>r_name = u_name row, r_name_normalized = u_name_normalized row,
                                 r_country = u_country row, r_sources = {u_source row}\<rparr>]))"

definition deduplicate_uni ::
  "(string \<Rightarrow> string \<Rightarrow> real) \<Rightarrow> uni_row list \<Rightarrow> string list \<times> uni_record list" where
  "deduplicate_uni ratio all_unis = foldl (uni_step ratio) ([], []) all_unis"

section \<open>Normal forms of normalized text\<close>

text \<open>
  Notions used in the proofs about the normalizers: a string with no white space at
  either end; a string whose white space is single blanks only; a character that
  \<open>lower\<close> and the replacement of commas leave alone; the three together; and the
  characters the script's normalizer can return.
\<close>

definition stripped :: "string \<Rightarrow> bool" where
  "stripped s \<longleftrightarrow> (s \<noteq> [] \<longrightarrow> \<not> is_space (hd s) \<and> \<not> is_space (last s))"

fun squeezed :: "string \<Rightarrow> bool" where
  "squeezed [] = True"
| "squeezed [c] = (is_space c \<longrightarrow> c = CHR '' '')"
| "squeezed (c # d # cs) = ((is_space c \<longrightarrow> c = CHR '' '' \<and> \<not> is_space d) \<and> squeezed (d # cs))"

definition plain :: "char \<Rightarrow> bool" where
  "plain c \<longleftrightarrow> lower_char c = c \<and> c \<noteq> CHR '',''"

definition clean :: "string \<Rightarrow> bool" where
  "clean s \<longleftrightarrow> (\<forall>c\<in>set s. plain c) \<and> squeezed s \<and> stripped s"

definition alnum_or_blank :: "char \<Rightarrow> bool" where
  "alnum_or_blank c \<longleftrightarrow> is_lower_alnum c \<or> c = CHR '' ''"

section \<open>Notions for the grouping pass and the choice of the representative\<close>

text \<open>
  \<open>group_ok df gs k\<close>: the \<open>k\<close>-th group of \<open>gs\<close> starts with a seed that is the least index
  not in an earlier group, and holds after it exactly the later indices, in order, that
  are in no earlier group and match the seed directly.
\<close>

definition group_ok :: "krow list \<Rightarrow> nat list list \<Rightarrow> nat \<Rightarrow> bool" where
  "group_ok df gs k \<longleftrightarrow>
     (let consumed = \<Union> (set ` set (take k gs)); seed = hd (gs ! k) in
      seed < length df \<and> seed \<notin> consumed \<and> (\<forall>i<seed. i \<in> consumed) \<and>
      gs ! k = seed # filter (\<lambda>j. j \<notin> consumed \<and> is_same_university (df ! seed) (df ! j))
                         [seed + 1 ..< length df])"

text \<open>
  The triples \<open>(idx, row, score)\<close> of \<open>group_with_scores\<close>, their projection to the
  pairs of a group, and the sort key of the descending stable sort.
\<close>

definition with_score :: "nat \<times> krow \<Rightarrow> nat \<times> krow \<times> nat" where
  "with_score a = (case a of (idx, r) \<Rightarrow> (idx, r, score r))"

definition drop_score :: "nat \<times> krow \<times> nat \<Rightarrow> nat \<times> krow" where
  "drop_score t = (case t of (idx, r, sc) \<Rightarrow> (idx, r))"

definition neg_score :: "nat \<times> krow \<times> nat \<Rightarrow> int" where
  "neg_score t = (case t of (idx, r, sc) \<Rightarrow> - int sc)"

section \<open>Notions for the merge of the ranking tables\<close>

text \<open>
  The lookup key of a dictionary of \<open>merged_list\<close> and of a row of a source table; the
  common shape of the two loop bodies, with the rank column and the new row as
  parameters; and the columns that a QS row brings.
\<close>

definition key_of :: "merged \<Rightarrow> string \<times> string" where
  "key_of record = (m_country record, m_name_normalized record)"

definition src_key :: "src_row \<Rightarrow> string \<times> string" where
  "src_key r = (s_country r, s_name_normalized r)"

definition rank_step ::
  "(merged \<Rightarrow> cell \<Rightarrow> merged) \<Rightarrow> (src_row \<Rightarrow> merged) \<Rightarrow> lookup \<Rightarrow> merged list \<Rightarrow> src_row \<Rightarrow> merged list" where
  "rank_step set_rank new_row lookup merged_list r =
     (case lookup (src_key r) of
        Some i \<Rightarrow> merged_list[i := set_rank (merged_list ! i) (s_rank r)]
      | None \<Rightarrow> merged_list @ [new_row r])"

definition qs_fields :: "merged \<Rightarrow> cell \<times> string \<times> string \<times> cell \<times> cell \<times> cell \<times> cell" where
  "qs_fields m = (m_Name m, m_country m, m_name_normalized m, m_qs_rank m, m_status m,
                  m_Latitude m, m_Longitude m)"

section \<open>Example tables\<close>

definition three_rows :: "krow list" where
  "three_rows = map with_keys
     [\<lparr>Name = CStr ''MIT'', Country = CStr ''United States of America'', others = []\<rparr>,
      \<lparr>Name = CStr ''Massachusetts Institute of Technology (MIT)'',
        Country = CStr ''United States of America'', others = []\<rparr>,
      \<lparr>Name = CStr ''Massachusetts Institute of Technology'',
        Country = CStr ''United States of America'', others = []\<rparr>]"

definition ex_qs :: qs_row where
  "ex_qs = \<lparr>q_Name = CStr ''MIT'', q_country = ''United States of America'', q_rank = CInt 1,
            q_status = CStr ''Private'', q_Latitude = CStr ''42.36'', q_Longitude = CStr ''-71.09'',
            q_name_normalized = ''mit''\<rparr>"

definition ex_the_mit :: src_row where
  "ex_the_mit = \<lparr>s_Name = CStr ''MIT'', s_country = ''United States of America'',
                 s_rank = CInt 2, s_name_normalized = ''mit''\<rparr>"

definition ex_the_oxford :: src_row where
  "ex_the_oxford = \<lparr>s_Name = CStr ''University of Oxford'', s_country = ''United Kingdom'',
                    s_rank = CInt 1, s_name_normalized = ''university of oxford''\<rparr>"

definition ex_the_oxford2 :: src_row where
  "ex_the_oxford2 = \<lparr>s_Name = CStr ''UNIVERSITY OF OXFORD'', s_country = ''United Kingdom'',
                    s_rank = CInt 3, s_name_normalized = ''university of oxford''\<rparr>"

text \<open>Two rows with the same key, one of them with a number as its name.\<close>

definition ex_number_rows :: "row list" where
  "ex_number_rows =
     [\<lparr>Name = CInt 5, Country = CStr ''Spain'', others = []\<rparr>,
      \<lparr>Name = CStr ''5'', Country = CStr ''Spain'', others = []\<rparr>]"

text \<open>
  A similarity that is 100 on equal strings and 0 on different ones, and two rows of
  \<open>all_unis\<close> whose names are punctuation only.
\<close>

definition equal_ratio :: "string \<Rightarrow> string \<Rightarrow> real" where
  "equal_ratio a b = (if a = b then 100 else 0)"

definition ex_uni_rows :: "uni_row list" where
  "ex_uni_rows =
     [\<lparr>u_name = CStr ''???'', u_name_normalized = uni_steps ''???'',
       u_country = CStr ''Unknown'', u_source = ''uniRank-World''\<rparr>,
      \<lparr>u_name = CStr ''!!!'', u_name_normalized = uni_steps ''!!!'',
       u_country = CStr ''Unknown'', u_source = ''uniRank-World''\<rparr>]"

section \<open>Properties of the text primitives\<close>

lemma rstrip_snoc: "rstrip (xs @ [x]) = (if is_space x then rstrip xs else xs @ [x])"
  by (simp add: rstrip_def)

lemma rstrip_Nil: "rstrip [] = []"
  by (simp add: rstrip_def)

lemma rstrip_single: "rstrip [x] = (if is_space x then [] else [x])"
  by (simp add: rstrip_def)

lemma rstrip_prefix: "\<exists>ws. s = rstrip s @ ws \<and> (\<forall>c\<in>set ws. is_space c)"
proof (induction s rule: rev_induct)
  case Nil
  then show ?case by (simp add: rstrip_Nil)
next
  case (snoc x xs)
  then obtain ws where ws: "xs = rstrip xs @ ws" "\<forall>c\<in>set ws. is_space c" by blast
  show ?case
  proof (cases "is_space x")
    case True
    have "xs @ [x] = rstrip xs @ (ws @ [x])" using ws(1) by simp
    moreover have "\<forall>c\<in>set (ws @ [x]). is_space c" using ws(2) True by simp
    ultimately have "\<exists>ws'. xs @ [x] = rstrip xs @ ws' \<and> (\<forall>c\<in>set ws'. is_space c)"
      by blast
    with True show ?thesis by (simp only: rstrip_snoc if_True)
  next
    case False
    then show ?thesis by (simp add: rstrip_snoc)
  qed
qed

lemma rstrip_last: "rstrip s \<noteq> [] \<Longrightarrow> \<not> is_space (last (rstrip s))"
  by (induction s rule: rev_induct) (auto simp: rstrip_snoc rstrip_Nil)

lemma rstrip_id: "s = [] \<or> \<not> is_space (last s) \<Longrightarrow> rstrip s = s"
  by (cases s rule: rev_cases) (auto simp: rstrip_snoc rstrip_Nil)

lemma rstrip_hd: "s \<noteq> [] \<Longrightarrow> \<not> is_space (hd s) \<Longrightarrow> rstrip s \<noteq> [] \<and> hd (rstrip s) = hd s"
proof (induction s rule: rev_induct)
  case Nil
  then show ?case by simp
next
  case (snoc x xs)
  show ?case
  proof (cases "xs = []")
    case True
    with snoc.prems show ?thesis by (simp add: rstrip_single)
  next
    case False
    with snoc show ?thesis by (auto simp: rstrip_snoc)
  qed
qed

lemma lstrip_hd: "lstrip s \<noteq> [] \<Longrightarrow> \<not> is_space (hd (lstrip s))"
  unfolding lstrip_def by (rule hd_dropWhile)

lemma stripped_strip: "stripped (strip s)"
proof (cases "lstrip s = []")
  case True
  then show ?thesis by (simp add: stripped_def strip_def rstrip_Nil)
next
  case False
  with lstrip_hd have "\<not> is_space (hd (lstrip s))" by blast
  with False have "rstrip (lstrip s) \<noteq> [] \<and> hd (rstrip (lstrip s)) = hd (lstrip s)"
    by (rule rstrip_hd)
  with \<open>\<not> is_space (hd (lstrip s))\<close> rstrip_last [of "lstrip s"]
  show ?thesis by (simp add: stripped_def strip_def)
qed

lemma strip_id: "stripped s \<Longrightarrow> strip s = s"
  unfolding stripped_def strip_def lstrip_def
  by (cases s) (auto simp: rstrip_id)

lemma set_rstrip: "set (rstrip s) \<subseteq> set s"
proof -
  obtain ws where "s = rstrip s @ ws" using rstrip_prefix by blast
  then have "set s = set (rstrip s) \<union> set ws" by (metis set_append)
  then show ?thesis by blast
qed

lemma set_strip: "set (strip s) \<subseteq> set s"
proof -
  have "set (strip s) \<subseteq> set (lstrip s)" unfolding strip_def by (rule set_rstrip)
  also have "\<dots> \<subseteq> set s" unfolding lstrip_def by (auto dest: set_dropWhileD)
  finally show ?thesis .
qed

lemma is_space_blank: "is_space (CHR '' '')"
  by (simp add: is_space_def)

lemma collapse_ws_hd: "\<not> is_space d \<Longrightarrow> collapse_ws (d # cs) = d # collapse_ws cs"
  by (cases cs) auto

lemma collapse_ws_Cons_ex: "\<exists>e es. collapse_ws (d # cs) = e # es \<and> (is_space e \<longleftrightarrow> is_space d)"
proof (induction cs arbitrary: d)
  case Nil
  then show ?case by (simp add: is_space_blank)
next
  case (Cons a cs)
  show ?case
  proof (cases "is_space d \<and> is_space a")
    case True
    with Cons [of a] show ?thesis by auto
  next
    case False
    then show ?thesis by (auto simp: is_space_blank)
  qed
qed

lemma squeezed_collapse_ws: "squeezed (collapse_ws s)"
proof (induction s rule: collapse_ws.induct)
  case 1
  then show ?case by simp
next
  case (2 c)
  then show ?case by simp
next
  case (3 c d cs)
  show ?case
  proof (cases "is_space c \<and> is_space d")
    case True
    with 3 show ?thesis by simp
  next
    case False
    obtain e es where e: "collapse_ws (d # cs) = e # es" "is_space e \<longleftrightarrow> is_space d"
      using collapse_ws_Cons_ex by blast
    from False 3 have sq: "squeezed (e # es)" using e(1) by simp
    from False e sq show ?thesis by (auto simp: is_space_blank)
  qed
qed

lemma collapse_ws_id: "squeezed s \<Longrightarrow> collapse_ws s = s"
  by (induction s rule: collapse_ws.induct) auto

lemma squeezed_tl: "squeezed (c # cs) \<Longrightarrow> squeezed cs"
  by (cases cs) auto

lemma squeezed_dropWhile: "squeezed s \<Longrightarrow> squeezed (dropWhile P s)"
  by (induction s) (auto dest: squeezed_tl)

lemma squeezed_drop: "squeezed s \<Longrightarrow> squeezed (drop n s)"
proof (induction s arbitrary: n)
  case Nil
  then show ?case by simp
next
  case (Cons c cs)
  then show ?case by (cases n) (auto dest: squeezed_tl)
qed

lemma squeezed_append_left: "squeezed (xs @ ys) \<Longrightarrow> squeezed xs"
proof (induction xs rule: squeezed.induct)
  case 1
  then show ?case by simp
next
  case (2 c)
  then show ?case by (cases ys) auto
next
  case (3 c d cs)
  then show ?case by auto
qed

lemma squeezed_rstrip: "squeezed s \<Longrightarrow> squeezed (rstrip s)"
  by (metis rstrip_prefix squeezed_append_left)

lemma squeezed_strip: "squeezed s \<Longrightarrow> squeezed (strip s)"
  unfolding strip_def lstrip_def by (intro squeezed_rstrip squeezed_dropWhile)

section \<open>Idempotence of the normalizers\<close>

lemma lower_char_idem: "lower_char (lower_char c) = lower_char c"
  by (simp add: lower_char_def Let_def)

lemma lower_char_blank: "lower_char (CHR '' '') = CHR '' ''"
  by (simp add: lower_char_def)

lemma plain_blank: "plain (CHR '' '')"
  by (simp add: plain_def lower_char_blank)

lemma set_collapse_ws: "set (collapse_ws s) \<subseteq> insert (CHR '' '') (set s)"
  by (induction s rule: collapse_ws.induct) auto

lemma plain_replace_lower: "\<forall>c\<in>set (replace_comma (lower u)). plain c"
  by (auto simp: replace_comma_def lower_def plain_def lower_char_idem lower_char_blank)

lemma clean_front: "clean (strip (collapse_ws (replace_comma (lower u))))"
proof -
  let ?v = "replace_comma (lower u)"
  have "set (strip (collapse_ws ?v)) \<subseteq> insert (CHR '' '') (set ?v)"
    using set_strip set_collapse_ws by blast
  then have "\<forall>c\<in>set (strip (collapse_ws ?v)). plain c"
    using plain_replace_lower plain_blank by blast
  then show ?thesis
    by (simp add: clean_def stripped_strip squeezed_strip squeezed_collapse_ws)
qed

lemma lower_id: "\<forall>c\<in>set s. plain c \<Longrightarrow> lower s = s"
  by (simp add: lower_def plain_def map_idI)

lemma replace_comma_id: "\<forall>c\<in>set s. plain c \<Longrightarrow> replace_comma s = s"
  by (simp add: replace_comma_def plain_def map_idI)

lemma front_id: "clean s \<Longrightarrow> strip (collapse_ws (replace_comma (lower (strip s)))) = s"
  by (simp add: clean_def strip_id lower_id replace_comma_id collapse_ws_id)

lemma stripped_dropWhile_drop:
  assumes "stripped s"
  shows "stripped (dropWhile is_space (drop n s))"
proof (cases "dropWhile is_space (drop n s) = []")
  case True
  then show ?thesis by (simp add: stripped_def)
next
  case False
  then have ne: "drop n s \<noteq> []" by auto
  have "last (dropWhile is_space (drop n s)) = last (drop n s)"
    using False by (metis last_appendR takeWhile_dropWhile_id)
  also have "\<dots> = last s" using ne by simp
  finally have "last (dropWhile is_space (drop n s)) = last s" .
  moreover have "s \<noteq> []" using ne by auto
  ultimately show ?thesis
    using assms False hd_dropWhile [of is_space "drop n s"] by (simp add: stripped_def)
qed

lemma clean_remove_the: "clean t \<Longrightarrow> clean (remove_the t)"
proof -
  assume c: "clean t"
  have "set (dropWhile is_space (drop 3 t)) \<subseteq> set t"
    by (meson set_dropWhileD in_set_dropD subsetI)
  with c show ?thesis
    by (auto simp: remove_the_def clean_def squeezed_dropWhile squeezed_drop stripped_dropWhile_drop)
qed

lemma clean_normalize_text_steps: "clean (normalize_text_steps s)"
  unfolding normalize_text_steps_def by (intro clean_remove_the clean_front)

lemma normalize_text_steps_clean: "clean s \<Longrightarrow> normalize_text_steps s = remove_the s"
  unfolding normalize_text_steps_def by (simp add: front_id)

lemma remove_the_Nil: "remove_the [] = []"
  by (simp add: remove_the_def)

lemma clean_Nil: "clean []"
  by (simp add: clean_def stripped_def)

lemma clean_normalize_name: "clean (normalize_name x)"
  by (simp add: normalize_name_def clean_normalize_text_steps clean_Nil)

lemma normalize_name_twice: "normalize_name (CStr (normalize_name x)) = remove_the (normalize_name x)"
  using clean_normalize_name [of x]
  by (cases "normalize_name x = []") (simp_all add: normalize_name_def [of "CStr _"] normalize_text_steps_clean remove_the_Nil)

lemma squeezed_space: "squeezed s \<Longrightarrow> c \<in> set s \<Longrightarrow> is_space c \<Longrightarrow> c = CHR '' ''"
  by (induction s rule: squeezed.induct) auto

lemma remove_the_shorter:
  assumes "take 3 s = ''the''"
  shows "dropWhile is_space (drop 3 s) \<noteq> s"
proof -
  have "length (dropWhile is_space (drop 3 s)) \<le> length (drop 3 s)"
    by (rule length_dropWhile_le)
  moreover have "3 \<le> length s" using assms by (metis length_take min.cobounded1 length_Cons list.size(3) numeral_3_eq_3)
  ultimately have "length (dropWhile is_space (drop 3 s)) < length s" by simp
  then show ?thesis by auto
qed

lemma startswith_the:
  "startswith s ''the '' \<longleftrightarrow> take 3 s = ''the'' \<and> drop 3 s \<noteq> [] \<and> hd (drop 3 s) = CHR '' ''"
proof (cases s)
  case Nil
  then show ?thesis by (simp add: startswith_def)
next
  case s1: (Cons a s1)
  show ?thesis
  proof (cases s1)
    case Nil
    with s1 show ?thesis by (simp add: startswith_def)
  next
    case s2: (Cons b s2)
    show ?thesis
    proof (cases s2)
      case Nil
      with s1 s2 show ?thesis by (simp add: startswith_def)
    next
      case s3: (Cons c s3)
      show ?thesis
      proof (cases s3)
        case Nil
        with s1 s2 s3 show ?thesis by (simp add: startswith_def)
      next
        case (Cons d s4)
        with s1 s2 s3 show ?thesis by (simp add: startswith_def numeral_3_eq_3)
      qed
    qed
  qed
qed

lemma remove_the_fixed:
  assumes "clean s"
  shows "remove_the s = s \<longleftrightarrow> \<not> startswith s ''the ''"
proof (cases "take 3 s = ''the'' \<and> drop 3 s \<noteq> [] \<and> is_space (hd (drop 3 s))")
  case True
  then have "hd (drop 3 s) \<in> set s"
    by (meson hd_in_set in_set_dropD)
  with assms True have "hd (drop 3 s) = CHR '' ''"
    by (auto simp: clean_def dest: squeezed_space)
  with True have "startswith s ''the ''" by (simp add: startswith_the)
  moreover from True have "remove_the s \<noteq> s"
    by (simp add: remove_the_def remove_the_shorter)
  ultimately show ?thesis by simp
next
  case False
  then have "remove_the s = s" by (auto simp: remove_the_def)
  moreover from False have "\<not> startswith s ''the ''"
    by (auto simp: startswith_the is_space_blank)
  ultimately show ?thesis by simp
qed


lemma collapse_ws_member:
  "c \<in> set (collapse_ws s) \<Longrightarrow> (c \<in> set s \<and> \<not> is_space c) \<or> c = CHR '' ''"
  by (induction s rule: collapse_ws.induct) (auto split: if_splits)

lemma is_lower_alnum_lower: "is_lower_alnum c \<Longrightarrow> lower_char c = c"
  by (auto simp: is_lower_alnum_def lower_char_def Let_def)

lemma is_lower_alnum_ascii: "is_lower_alnum c \<Longrightarrow> (of_char c :: nat) < 128"
  by (auto simp: is_lower_alnum_def Let_def)

lemma alnum_or_blank_front:
  "\<forall>c\<in>set (strip (collapse_ws (keep_alnum_space w))). alnum_or_blank c"
proof
  fix c assume "c \<in> set (strip (collapse_ws (keep_alnum_space w)))"
  then have "c \<in> set (collapse_ws (keep_alnum_space w))" using set_strip by blast
  then have "(c \<in> set (keep_alnum_space w) \<and> \<not> is_space c) \<or> c = CHR '' ''"
    by (rule collapse_ws_member)
  then show "alnum_or_blank c"
    by (auto simp: keep_alnum_space_def alnum_or_blank_def)
qed

lemma uni_fixed:
  assumes ab: "\<forall>c\<in>set u. alnum_or_blank c" and sq: "squeezed u" and st: "stripped u"
  shows "uni_steps u = u"
proof -
  have "\<forall>c\<in>set u. lower_char c = c"
    using ab by (auto simp: alnum_or_blank_def is_lower_alnum_lower lower_char_blank)
  then have l: "lower u = u"
    by (simp add: lower_def map_idI)
  have "\<forall>c\<in>set u. (of_char c :: nat) < 128"
  proof
    fix c assume "c \<in> set u"
    with ab have "is_lower_alnum c \<or> c = CHR '' ''" by (simp add: alnum_or_blank_def)
    then show "(of_char c :: nat) < 128"
    proof
      assume "is_lower_alnum c" then show ?thesis by (rule is_lower_alnum_ascii)
    next
      assume "c = CHR '' ''" then show ?thesis by simp
    qed
  qed
  then have a: "ascii_only u = u"
    unfolding ascii_only_def by (simp add: filter_id_conv)
  have "\<forall>c\<in>set u. is_lower_alnum c \<or> is_space c"
  proof
    fix c assume "c \<in> set u"
    with ab have "is_lower_alnum c \<or> c = CHR '' ''" by (simp add: alnum_or_blank_def)
    then show "is_lower_alnum c \<or> is_space c" using is_space_blank by blast
  qed
  then have k: "keep_alnum_space u = u"
    unfolding keep_alnum_space_def by (simp add: filter_id_conv)
  have s: "strip u = u" using st by (rule strip_id)
  have c: "collapse_ws u = u" using sq by (rule collapse_ws_id)
  show ?thesis
    by (simp only: uni_steps_def l s a k c)
qed

lemma uni_steps_idem: "uni_steps (uni_steps s) = uni_steps s"
proof (rule uni_fixed)
  show "\<forall>c\<in>set (uni_steps s). alnum_or_blank c"
    unfolding uni_steps_def by (rule alnum_or_blank_front)
  show "squeezed (uni_steps s)"
    unfolding uni_steps_def by (intro squeezed_strip squeezed_collapse_ws)
  show "stripped (uni_steps s)"
    unfolding uni_steps_def by (rule stripped_strip)
qed

text \<open>
  C7, as amended. The \<open>normalize_name\<close> of \<open>merge_rankings.py\<close> removes one leading
  \<open>the\<close> only: applying it to its own result gives the same result exactly when that
  result does not begin with \<open>the\<close> and a blank. The \<open>normalize_name\<close> of
  \<open>merge_uni.py\<close> returns, on every string, a string that it maps to itself.
\<close>

theorem normalize_name_idempotent_unless_the:
  "(normalize_name (CStr (normalize_name x)) = normalize_name x \<longleftrightarrow>
       \<not> startswith (normalize_name x) ''the '') \<and>
   (\<exists>r. normalize_name_uni (CStr s) = Inr r \<and> normalize_name_uni (CStr r) = Inr r)"
  by (simp add: normalize_name_twice remove_the_fixed clean_normalize_name uni_steps_idem)

text \<open>
  C7 as stated fails: \<open>"The The Ohio State"\<close> normalizes to \<open>"the ohio state"\<close>, which
  normalizes to \<open>"ohio state"\<close>.
\<close>

theorem normalize_name_not_idempotent:
  "normalize_name (CStr (normalize_name (CStr ''The The Ohio State''))) \<noteq>
     normalize_name (CStr ''The The Ohio State'')"
  by code_simp

section \<open>The bracket-aware matcher and the name keys\<close>

text \<open>
  C1, as amended. Two rows are matched exactly when their country texts (trimmed,
  lower-cased) are equal and not empty, and their key sets share a key with a word
  outside the generic words; in particular two rows whose only common key is
  \<open>university\<close> are never matched.
\<close>

theorem is_same_university_iff:
  "(is_same_university a b \<longleftrightarrow>
      country_of a \<noteq> [] \<and> country_of a = country_of b \<and>
      (\<exists>key \<in> name_keys a \<inter> name_keys b. \<not> set (split key) \<subseteq> common_words)) \<and>
   (name_keys a \<inter> name_keys b = {''university''} \<longrightarrow> \<not> is_same_university a b)"
proof -
  have "set (split ''university'') \<subseteq> common_words" by code_simp
  then show ?thesis
    by (auto simp: is_same_university_def Let_def)
qed

theorem is_same_university_iff_witness:
  "name_keys (with_keys \<lparr>Name = CStr ''University (Alpha)'', Country = CStr ''Spain'', others = []\<rparr>) \<inter>
   name_keys (with_keys \<lparr>Name = CStr ''University (Beta)'', Country = CStr ''Spain'', others = []\<rparr>) =
     {''university''} \<and>
   \<not> is_same_university
     (with_keys \<lparr>Name = CStr ''University (Alpha)'', Country = CStr ''Spain'', others = []\<rparr>)
     (with_keys \<lparr>Name = CStr ''University (Beta)'', Country = CStr ''Spain'', others = []\<rparr>)"
proof -
  let ?a = "with_keys \<lparr>Name = CStr ''University (Alpha)'', Country = CStr ''Spain'', others = []\<rparr>"
  let ?b = "with_keys \<lparr>Name = CStr ''University (Beta)'', Country = CStr ''Spain'', others = []\<rparr>"
  have h: "name_keys ?a \<inter> name_keys ?b = {''university''}" by code_simp
  with is_same_university_iff [of ?a ?b] show ?thesis by blast
qed

text \<open>
  C1 as stated fails for rows without a country: the country texts are equal (both
  empty) and the key \<open>mit\<close> is common and not generic, but the rows are not matched.
\<close>

theorem empty_country_never_matches:
  "lower (strip (py_str (Country (with_keys \<lparr>Name = CStr ''MIT'', Country = CStr [], others = []\<rparr>)))) =
   lower (strip (py_str (Country (with_keys \<lparr>Name = CStr ''Massachusetts Institute of Technology (MIT)'',
                                             Country = CStr [], others = []\<rparr>)))) \<and>
   (\<exists>key \<in> name_keys (with_keys \<lparr>Name = CStr ''MIT'', Country = CStr [], others = []\<rparr>) \<inter>
              name_keys (with_keys \<lparr>Name = CStr ''Massachusetts Institute of Technology (MIT)'',
                                    Country = CStr [], others = []\<rparr>).
      \<not> set (split key) \<subseteq> common_words) \<and>
   \<not> is_same_university
       (with_keys \<lparr>Name = CStr ''MIT'', Country = CStr [], others = []\<rparr>)
       (with_keys \<lparr>Name = CStr ''Massachusetts Institute of Technology (MIT)'',
                   Country = CStr [], others = []\<rparr>)"
  by code_simp







lemma abbreviations_long: "map_of abbreviations k = Some e \<Longrightarrow> 2 < length e"
  by (auto simp: abbreviations_def split: if_splits)

text \<open>
  C10, as amended. When the alias survives the stoplist and its normal form has at most
  two characters, the alias branch adds no key but the expansion of the abbreviation
  table: the key set is the normalized full name and the normalized base name (those
  that are not empty) and, when the alias is in the table, its expansion. The alias is
  a key only when it is also the base name.
\<close>

theorem short_alias_keys:
  assumes "extract_base_and_alias name = (base, alias)" and "alias \<noteq> []"
    and "length (normalize_name (CStr alias)) \<le> 2"
  shows "build_name_keys name =
           {k. k \<noteq> [] \<and> (k = normalize_name name \<or> k = normalize_name (CStr base))} \<union>
           (case map_of abbreviations (normalize_name (CStr alias)) of
              Some expansion \<Rightarrow> {expansion} | None \<Rightarrow> {})"
proof (cases "normalize_name (CStr alias) = []")
  case True
  then have "map_of abbreviations (normalize_name (CStr alias)) = None"
    by (simp add: abbreviations_def)
  with True assms show ?thesis
    by (auto simp: build_name_keys_def Let_def)
next
  case False
  with assms show ?thesis
    by (auto simp: build_name_keys_def Let_def split: option.splits)
qed

theorem short_alias_keys_witness:
  "extract_base_and_alias (CStr ''University of California (UC)'') = (''university of california'', ''uc'') \<and>
   ''uc'' \<noteq> [] \<and> length (normalize_name (CStr ''uc'')) \<le> 2 \<and>
   build_name_keys (CStr ''University of California (UC)'') =
     {''university of california (uc)'', ''university of california''}"
proof -
  have e: "extract_base_and_alias (CStr ''University of California (UC)'') = (''university of california'', ''uc'')"
    by code_simp
  have l: "length (normalize_name (CStr ''uc'')) \<le> 2" by code_simp
  have n: "''uc'' \<noteq> []" by simp
  have "{k. k \<noteq> [] \<and> (k = normalize_name (CStr ''University of California (UC)'') \<or>
                       k = normalize_name (CStr ''university of california''))} \<union>
        (case map_of abbreviations (normalize_name (CStr ''uc'')) of
              Some expansion \<Rightarrow> {expansion} | None \<Rightarrow> {}) =
        {''university of california (uc)'', ''university of california''}"
  proof -
    have 1: "normalize_name (CStr ''University of California (UC)'') = ''university of california (uc)''"
      by code_simp
    have 2: "normalize_name (CStr ''university of california'') = ''university of california''"
      by code_simp
    have 3: "map_of abbreviations (normalize_name (CStr ''uc'')) = Some ''university of california''"
      by code_simp
    show ?thesis unfolding 1 2 3 by auto
  qed
  with short_alias_keys [OF e n l] e l n show ?thesis by simp
qed

text \<open>
  C10 as stated fails when the short alias repeats the base name: for \<open>UC (UC)\<close> the
  alias \<open>uc\<close> is in the key set.
\<close>

theorem short_alias_kept_as_base:
  "extract_base_and_alias (CStr ''UC (UC)'') = (''uc'', ''uc'') \<and>
   length (normalize_name (CStr ''uc'')) \<le> 2 \<and>
   normalize_name (CStr ''uc'') \<in> build_name_keys (CStr ''UC (UC)'')"
  by code_simp

section \<open>The grouping pass of \<open>deduplicate_fuzzy\<close>\<close>

lemma scan_matches_filter:
  "distinct js \<Longrightarrow>
   scan_matches df i js used grp =
     (grp @ filter (\<lambda>j. j \<notin> used \<and> is_same_university (df ! i) (df ! j)) js,
      used \<union> set (filter (\<lambda>j. j \<notin> used \<and> is_same_university (df ! i) (df ! j)) js))"
proof (induction js arbitrary: used grp)
  case Nil
  then show ?case by simp
next
  case (Cons j js)
  have eq: "filter (\<lambda>j'. j' \<notin> insert j used \<and> is_same_university (df ! i) (df ! j')) js =
            filter (\<lambda>j'. j' \<notin> used \<and> is_same_university (df ! i) (df ! j')) js"
    using Cons.prems by (intro filter_cong) auto
  from Cons.prems have d: "distinct js" by simp
  have IH1: "scan_matches df i js (insert j used) (grp @ [j]) =
      ((grp @ [j]) @ filter (\<lambda>j'. j' \<notin> used \<and> is_same_university (df ! i) (df ! j')) js,
       insert j used \<union> set (filter (\<lambda>j'. j' \<notin> used \<and> is_same_university (df ! i) (df ! j')) js))"
    using Cons.IH [OF d, of "insert j used" "grp @ [j]"] unfolding eq .
  show ?case
  proof (cases "j \<in> used")
    case True
    then show ?thesis by (simp add: Cons.IH [OF d])
  next
    case False
    then show ?thesis by (simp add: Cons.IH [OF d, of used grp] IH1)
  qed
qed

lemma group_ok_append:
  "k < length gs \<Longrightarrow> group_ok df (gs @ [g]) k = group_ok df gs k"
  by (simp add: group_ok_def nth_append)

lemma group_rows_ok:
  assumes "\<forall>k<length acc. group_ok df acc k"
    and "used = \<Union> (set ` set acc)"
    and "is = [m ..< length df]"
    and "\<forall>i<m. i \<in> used"
  shows "\<forall>k<length (group_rows df is used acc). group_ok df (group_rows df is used acc) k"
  using assms
proof (induction "is" arbitrary: m used acc)
  case Nil
  then show ?case by simp
next
  case (Cons i "is")
  from Cons.prems(3) [symmetric] have im: "i = m" and lt: "m < length df" and rest: "is = [Suc m ..< length df]"
    by (auto simp: upt_eq_Cons_conv)
  show ?case
  proof (cases "i \<in> used")
    case True
    have "\<forall>j<Suc m. j \<in> used" using Cons.prems(4) True im by (auto simp: less_Suc_eq)
    from Cons.IH [OF Cons.prems(1) Cons.prems(2) rest this] True show ?thesis by simp
  next
    case False
    let ?ms = "filter (\<lambda>j. j \<notin> used \<and> is_same_university (df ! m) (df ! j)) [m + 1 ..< length df]"
    let ?g = "m # ?ms"
    have f: "filter (\<lambda>j. j \<notin> insert m used \<and> is_same_university (df ! m) (df ! j)) [m + 1 ..< length df] = ?ms"
      by (intro filter_cong) auto
    have "scan_matches df m [m + 1 ..< length df] (insert m used) [m] =
       ([m] @ filter (\<lambda>j. j \<notin> insert m used \<and> is_same_university (df ! m) (df ! j)) [m + 1 ..< length df],
        insert m used \<union> set (filter (\<lambda>j. j \<notin> insert m used \<and> is_same_university (df ! m) (df ! j)) [m + 1 ..< length df]))"
      by (rule scan_matches_filter) simp
    then have sm: "scan_matches df m [m + 1 ..< length df] (insert m used) [m] = (?g, insert m used \<union> set ?ms)"
      unfolding f by simp
    have step: "group_rows df (i # is) used acc = group_rows df is (insert m used \<union> set ?ms) (acc @ [?g])"
      using False im sm by simp
    have ok_new: "group_ok df (acc @ [?g]) (length acc)"
      using False im lt Cons.prems(2,4) by (simp add: group_ok_def)
    have 1: "\<forall>k<length (acc @ [?g]). group_ok df (acc @ [?g]) k"
      using Cons.prems(1) ok_new by (auto simp: less_Suc_eq group_ok_append)
    have 2: "insert m used \<union> set ?ms = \<Union> (set ` set (acc @ [?g]))"
      using Cons.prems(2) by auto
    have 3: "\<forall>j<Suc m. j \<in> insert m used \<union> set ?ms"
      using Cons.prems(4) by (auto simp: less_Suc_eq)
    from Cons.IH [OF 1 2 rest 3] step show ?thesis by simp
  qed
qed

lemma merged_groups_ok:
  "k < length (merged_groups df) \<Longrightarrow> group_ok df (merged_groups df) k"
  unfolding merged_groups_def
  using group_rows_ok [of "[]" df "{}" "[0 ..< length df]" 0] by simp

text \<open>
  C5. In the list of groups that the grouping pass returns, the seed of the \<open>k\<close>-th
  group is the least index that is in no earlier group, and the group is the seed
  followed by exactly the later indices, in order, that are in no earlier group and
  that the matcher accepts against the seed. Membership never comes from a match with
  a member other than the seed.
\<close>

theorem merged_groups_one_pass:
  assumes "k < length (merged_groups df)"
  shows "hd (merged_groups df ! k) < length df \<and>
         hd (merged_groups df ! k) \<notin> \<Union> (set ` set (take k (merged_groups df))) \<and>
         (\<forall>i<hd (merged_groups df ! k). i \<in> \<Union> (set ` set (take k (merged_groups df)))) \<and>
         merged_groups df ! k =
           hd (merged_groups df ! k) #
           filter (\<lambda>j. j \<notin> \<Union> (set ` set (take k (merged_groups df))) \<and>
                       is_same_university (df ! hd (merged_groups df ! k)) (df ! j))
                  [hd (merged_groups df ! k) + 1 ..< length df]"
  using merged_groups_ok [OF assms] by (simp add: group_ok_def Let_def)

theorem merged_groups_one_pass_witness:
  "0 < length (merged_groups three_rows) \<and>
   merged_groups three_rows = [[0, 1], [2]] \<and>
   merged_groups three_rows ! 0 =
     0 # filter (\<lambda>j. is_same_university (three_rows ! 0) (three_rows ! j)) [1 ..< 3] \<and>
   is_same_university (three_rows ! 1) (three_rows ! 2) \<and>
   \<not> is_same_university (three_rows ! 0) (three_rows ! 2)"
proof -
  have g: "merged_groups three_rows = [[0, 1], [2]]" by code_simp
  then have h: "0 < length (merged_groups three_rows)" by simp
  have l: "length three_rows = 3" by (simp add: three_rows_def)
  have m: "is_same_university (three_rows ! 1) (three_rows ! 2) \<and>
    \<not> is_same_university (three_rows ! 0) (three_rows ! 2)" by code_simp
  from merged_groups_one_pass [OF h] g h l m show ?thesis by simp
qed

section \<open>The representative of a group\<close>




lemma sort_by_score_eq: "sort_by_score gws = sort_key neg_score gws"
proof -
  have "(\<lambda>(idx, r, sc). - int sc) = neg_score" by (auto simp: neg_score_def)
  then show ?thesis by (simp add: sort_by_score_def)
qed

lemma map_with_score_eq: "map (\<lambda>(idx, r). (idx, r, score r)) grp = map with_score grp"
  by (simp add: with_score_def)



lemma alt_cells: "map (\<lambda>(alt_idx, alt_row, sc'). get_col alt_row k) ts =
    map (\<lambda>a. get_col (snd a) k) (map drop_score ts)"
  by (auto simp: drop_score_def)

lemma drop_score_triple: "drop_score (i, r, s) = (i, r)"
  by (simp add: drop_score_def)

lemma names_are_strings:
  "list_all (\<lambda>(idx, r). is_str (Name r)) grp \<longleftrightarrow> (\<forall>a\<in>set grp. is_str (Name (snd a)))"
  by (auto simp: list_all_iff)


lemma merge_group_sorted:
  assumes "length grp \<noteq> 1" and "sort_key neg_score (map with_score grp) = t # ts"
    and "\<forall>a\<in>set grp. is_str (Name (snd a))"
  shows "merge_group grp =
     Inr ((snd (drop_score t))
       \<lparr>others := map (\<lambda>k. fill_value (others (snd (drop_score t)) ! k)
                              (map (\<lambda>a. get_col (snd a) k) (map drop_score ts)))
                     [0 ..< length (others (snd (drop_score t)))]\<rparr>)"
proof -
  obtain ridx rep sc where t: "t = (ridx, rep, sc)" by (cases t) auto
  have "sort_by_score (map (\<lambda>(idx, r). (idx, r, score r)) grp) = (ridx, rep, sc) # ts"
    using assms(2) t by (simp add: sort_by_score_eq map_with_score_eq)
  moreover have "list_all (\<lambda>(idx, r). is_str (Name r)) grp"
    using assms(3) by (simp add: names_are_strings)
  ultimately show ?thesis using assms(1)
    by (simp only: merge_group_def t drop_score_triple alt_cells if_False list.case prod.case
        snd_conv not_True_eq_False)
qed






section \<open>When \<open>deduplicate_fuzzy\<close> returns a table\<close>

text \<open>
  Every group of the grouping pass holds its seed and indices of the table only, so
  \<open>group_with_scores[0]\<close> never fails. When every \<open>Name\<close> of the table is a string the
  function returns one row per group; a group of several rows with a \<open>Name\<close> that is
  not a string makes it raise \<open>TypeError\<close>.
\<close>

lemma merge_group_defined:
  "grp \<noteq> [] \<Longrightarrow> \<forall>a\<in>set grp. is_str (Name (snd a)) \<Longrightarrow> \<exists>r. merge_group grp = Inr r"
proof (cases "length grp = 1")
  case True
  then show ?thesis by (simp add: merge_group_def)
next
  case False
  assume ne: "grp \<noteq> []" and strs: "\<forall>a\<in>set grp. is_str (Name (snd a))"
  have "length (sort_key neg_score (map with_score grp)) = length grp" by simp
  with ne obtain t ts where "sort_key neg_score (map with_score grp) = t # ts"
    by (cases "sort_key neg_score (map with_score grp)") auto
  from merge_group_sorted [OF False this strs] show ?thesis by blast
qed

lemma collect_keep_rows_defined:
  "\<forall>g\<in>set gs. \<exists>r. merge_group (map (\<lambda>idx. (idx, df ! idx)) g) = Inr r \<Longrightarrow>
   \<exists>keep_rows. collect_keep_rows df gs = Inr keep_rows \<and> length keep_rows = length gs"
  by (induction gs) auto

lemma merged_groups_members:
  assumes "g \<in> set (merged_groups df)"
  shows "g \<noteq> [] \<and> (\<forall>i\<in>set g. i < length df)"
proof -
  from assms obtain k where k: "k < length (merged_groups df)" "merged_groups df ! k = g"
    by (metis in_set_conv_nth)
  define seed where "seed = hd g"
  define js where "js = filter (\<lambda>j. j \<notin> \<Union> (set ` set (take k (merged_groups df))) \<and>
      is_same_university (df ! seed) (df ! j)) [seed + 1 ..< length df]"
  from merged_groups_ok [OF k(1)] have seed: "seed < length df" and g: "g = seed # js"
    unfolding group_ok_def Let_def k(2) seed_def js_def by blast+
  have "\<forall>i\<in>set js. i < length df" unfolding js_def by simp
  with g seed show ?thesis by simp
qed

lemma deduplicate_fuzzy_returns:
  assumes "\<forall>r\<in>set rows. is_str (Name r)"
  shows "\<exists>out. deduplicate_fuzzy rows = Inr out \<and>
         length out = length (merged_groups (map with_keys rows))"
proof -
  let ?df = "map with_keys rows"
  have "\<forall>g\<in>set (merged_groups ?df). \<exists>r. merge_group (map (\<lambda>idx. (idx, ?df ! idx)) g) = Inr r"
  proof
    fix g assume "g \<in> set (merged_groups ?df)"
    then have m: "g \<noteq> []" "\<forall>i\<in>set g. i < length ?df"
      using merged_groups_members by blast+
    have "\<forall>a\<in>set (map (\<lambda>idx. (idx, ?df ! idx)) g). is_str (Name (snd a))"
    proof
      fix a assume "a \<in> set (map (\<lambda>idx. (idx, ?df ! idx)) g)"
      then obtain i where i: "i \<in> set g" "a = (i, ?df ! i)" by auto
      with m(2) have "i < length rows" by simp
      then have "Name (?df ! i) = Name (rows ! i)" "rows ! i \<in> set rows"
        by (simp_all add: with_keys_def)
      with assms i(2) show "is_str (Name (snd a))" by simp
    qed
    moreover from m(1) have "map (\<lambda>idx. (idx, ?df ! idx)) g \<noteq> []" by simp
    ultimately show "\<exists>r. merge_group (map (\<lambda>idx. (idx, ?df ! idx)) g) = Inr r"
      by (rule merge_group_defined [rotated])
  qed
  from collect_keep_rows_defined [OF this]
  obtain keep_rows where "collect_keep_rows ?df (merged_groups ?df) = Inr keep_rows"
    "length keep_rows = length (merged_groups ?df)"
    by blast
  then show ?thesis by (simp add: deduplicate_fuzzy_def Let_def)
qed

lemma deduplicate_fuzzy_number_name:
  "merged_groups (map with_keys ex_number_rows) = [[0, 1]] \<and>
   deduplicate_fuzzy ex_number_rows = Inl TypeError"
  by code_simp

section \<open>The merge of the ranking tables\<close>

lemma the_step_rank_step:
  "the_step = rank_step (\<lambda>m c. m\<lparr>m_the_rank := c\<rparr>) new_the_row"
  by (simp add: fun_eq_iff the_step_def rank_step_def src_key_def)

lemma usnews_step_rank_step:
  "usnews_step = rank_step (\<lambda>m c. m\<lparr>m_usnews_rank := c\<rparr>) new_usnews_row"
  by (simp add: fun_eq_iff usnews_step_def rank_step_def src_key_def)

lemma create_lookup_from_Some:
  "create_lookup_from n rs lk k = Some i \<Longrightarrow>
     (lk k = Some i \<and> k \<notin> key_of ` set rs) \<or>
     (n \<le> i \<and> i < n + length rs \<and> key_of (rs ! (i - n)) = k)"
proof (induction rs arbitrary: n lk)
  case Nil
  then show ?case by simp
next
  case (Cons r rs)
  from Cons.prems have "create_lookup_from (n + 1) rs (lk(key_of r \<mapsto> n)) k = Some i"
    by (simp add: key_of_def)
  from Cons.IH [OF this]
  consider (old) "(lk(key_of r \<mapsto> n)) k = Some i" "k \<notin> key_of ` set rs"
    | (new) "n + 1 \<le> i" "i < n + 1 + length rs" "key_of (rs ! (i - (n + 1))) = k"
    by blast
  then show ?case
  proof cases
    case old
    show ?thesis
    proof (cases "k = key_of r")
      case True
      with old have "i = n" by simp
      with True show ?thesis by simp
    next
      case False
      with old show ?thesis by simp
    qed
  next
    case new
    then have "(r # rs) ! (i - n) = rs ! (i - (n + 1))" by (simp add: nth_Cons')
    with new show ?thesis by simp
  qed
qed

lemma create_lookup_from_None:
  "create_lookup_from n rs lk k = None \<longleftrightarrow> lk k = None \<and> k \<notin> key_of ` set rs"
  by (induction rs arbitrary: n lk) (auto simp: key_of_def)

lemma create_lookup_map_Some:
  "create_lookup_map ml k = Some i \<Longrightarrow> i < length ml \<and> key_of (ml ! i) = k"
  unfolding create_lookup_map_def by (drule create_lookup_from_Some) auto

lemma create_lookup_map_None:
  "create_lookup_map ml k = None \<longleftrightarrow> k \<notin> key_of ` set ml"
  unfolding create_lookup_map_def by (simp add: create_lookup_from_None)

lemma rank_pass:
  assumes rng: "\<And>k i. lk k = Some i \<Longrightarrow> i < n" and n: "n \<le> length ml"
    and proj: "\<And>m c. proj (set_rank m c) = proj m"
  shows "length (foldl (rank_step set_rank new_row lk) ml rs) =
           length ml + length (filter (\<lambda>r. lk (src_key r) = None) rs) \<and>
         drop (length ml) (foldl (rank_step set_rank new_row lk) ml rs) =
           map new_row (filter (\<lambda>r. lk (src_key r) = None) rs) \<and>
         (\<forall>j<length ml. proj (foldl (rank_step set_rank new_row lk) ml rs ! j) = proj (ml ! j))"
proof (induction rs rule: rev_induct)
  case Nil
  then show ?case by simp
next
  case (snoc r rs)
  let ?ml' = "foldl (rank_step set_rank new_row lk) ml rs"
  let ?misses = "filter (\<lambda>r. lk (src_key r) = None) rs"
  from snoc have len: "length ?ml' = length ml + length ?misses"
    and dr: "drop (length ml) ?ml' = map new_row ?misses"
    and pr: "\<forall>j<length ml. proj (?ml' ! j) = proj (ml ! j)" by blast+
  have step: "foldl (rank_step set_rank new_row lk) ml (rs @ [r]) = rank_step set_rank new_row lk ?ml' r"
    by simp
  show ?case
  proof (cases "lk (src_key r)")
    case None
    then have r: "rank_step set_rank new_row lk ?ml' r = ?ml' @ [new_row r]"
      by (simp add: rank_step_def)
    have "length ml \<le> length ?ml'" using len by simp
    then have "drop (length ml) (?ml' @ [new_row r]) = drop (length ml) ?ml' @ [new_row r]"
      by simp
    with None len dr pr show ?thesis
      unfolding step r by (simp add: nth_append)
  next
    case (Some i)
    then have r: "rank_step set_rank new_row lk ?ml' r = ?ml'[i := set_rank (?ml' ! i) (s_rank r)]"
      by (simp add: rank_step_def)
    have i: "i < length ml" using rng [OF Some] n by simp
    have "drop (length ml) (?ml'[i := set_rank (?ml' ! i) (s_rank r)]) = drop (length ml) ?ml'"
      using i by (simp add: drop_update_cancel)
    moreover have "\<forall>j<length ml. proj (?ml'[i := set_rank (?ml' ! i) (s_rank r)] ! j) = proj (ml ! j)"
    proof (intro allI impI)
      fix j assume j: "j < length ml"
      then have jl: "j < length ?ml'" using len by simp
      show "proj (?ml'[i := set_rank (?ml' ! i) (s_rank r)] ! j) = proj (ml ! j)"
      proof (cases "j = i")
        case True
        with jl have "?ml'[i := set_rank (?ml' ! i) (s_rank r)] ! j = set_rank (?ml' ! i) (s_rank r)"
          by simp
        then show ?thesis using proj pr j True by simp
      next
        case False
        then show ?thesis using pr j by simp
      qed
    qed
    ultimately show ?thesis
      unfolding step r using Some len dr by simp
  qed
qed


lemma rank_pass_untouched:
  assumes "j < length ml" and "\<forall>r\<in>set rs. lk (src_key r) \<noteq> Some j"
  shows "foldl (rank_step set_rank new_row lk) ml rs ! j = ml ! j"
  using assms(2)
proof (induction rs rule: rev_induct)
  case Nil
  then show ?case by simp
next
  case (snoc r rs)
  let ?ml' = "foldl (rank_step set_rank new_row lk) ml rs"
  from snoc have IH: "?ml' ! j = ml ! j" and r: "lk (src_key r) \<noteq> Some j" by auto
  have len: "length ml \<le> length ?ml'"
    by (induction rs rule: rev_induct) (auto simp: rank_step_def split: option.splits)
  have st: "foldl (rank_step set_rank new_row lk) ml (rs @ [r]) = rank_step set_rank new_row lk ?ml' r"
    by simp
  show ?case
  proof (cases "lk (src_key r)")
    case None
    then have e: "rank_step set_rank new_row lk ?ml' r = ?ml' @ [new_row r]"
      by (simp add: rank_step_def)
    show ?thesis unfolding st e using IH len assms(1) by (simp add: nth_append)
  next
    case (Some i)
    then have e: "rank_step set_rank new_row lk ?ml' r = ?ml'[i := set_rank (?ml' ! i) (s_rank r)]"
      by (simp add: rank_step_def)
    from Some r have "i \<noteq> j" by auto
    then show ?thesis unfolding st e using IH by simp
  qed
qed

lemma lookup_range: "create_lookup_map ml k = Some i \<Longrightarrow> i < length ml"
  by (drule create_lookup_map_Some) simp

lemma merge_the_facts:
  assumes proj: "\<And>m c. proj (m\<lparr>m_the_rank := c\<rparr>) = proj m"
  shows "length (merge_the ml rs) =
           length ml + length (filter (\<lambda>r. src_key r \<notin> key_of ` set ml) rs) \<and>
         drop (length ml) (merge_the ml rs) =
           map new_the_row (filter (\<lambda>r. src_key r \<notin> key_of ` set ml) rs) \<and>
         (\<forall>j<length ml. proj (merge_the ml rs ! j) = proj (ml ! j))"
  unfolding merge_the_def the_step_rank_step
  using rank_pass [of "create_lookup_map ml" "length ml" ml proj "\<lambda>m c. m\<lparr>m_the_rank := c\<rparr>" new_the_row rs,
      OF lookup_range order_refl proj]
  by (simp add: create_lookup_map_None)

lemma merge_usnews_facts:
  assumes proj: "\<And>m c. proj (m\<lparr>m_usnews_rank := c\<rparr>) = proj m"
  shows "length (merge_usnews ml rs) =
           length ml + length (filter (\<lambda>r. src_key r \<notin> key_of ` set ml) rs) \<and>
         drop (length ml) (merge_usnews ml rs) =
           map new_usnews_row (filter (\<lambda>r. src_key r \<notin> key_of ` set ml) rs) \<and>
         (\<forall>j<length ml. proj (merge_usnews ml rs ! j) = proj (ml ! j))"
  unfolding merge_usnews_def usnews_step_rank_step
  using rank_pass [of "create_lookup_map ml" "length ml" ml proj "\<lambda>m c. m\<lparr>m_usnews_rank := c\<rparr>" new_usnews_row rs,
      OF lookup_range order_refl proj]
  by (simp add: create_lookup_map_None)

lemma merge_usnews_untouched:
  assumes "j < length ml" and "key_of (ml ! j) \<notin> src_key ` set rs"
  shows "merge_usnews ml rs ! j = ml ! j"
  unfolding merge_usnews_def usnews_step_rank_step
proof (rule rank_pass_untouched [OF assms(1)])
  show "\<forall>r\<in>set rs. create_lookup_map ml (src_key r) \<noteq> Some j"
  proof
    fix r assume r: "r \<in> set rs"
    show "create_lookup_map ml (src_key r) \<noteq> Some j"
    proof
      assume "create_lookup_map ml (src_key r) = Some j"
      then have "key_of (ml ! j) = src_key r" by (rule create_lookup_map_Some [THEN conjunct2])
      with assms(2) r show False by auto
    qed
  qed
qed

lemma the_only_row:
  assumes t: "t \<in> set the_df" and miss: "src_key t \<notin> key_of ` set ml"
  shows "\<exists>j. length ml \<le> j \<and> j < length (merge_the ml the_df) \<and> merge_the ml the_df ! j = new_the_row t"
proof -
  let ?T = "merge_the ml the_df"
  let ?misses = "filter (\<lambda>r. src_key r \<notin> key_of ` set ml) the_df"
  have f: "length ?T = length ml + length ?misses" "drop (length ml) ?T = map new_the_row ?misses"
    using merge_the_facts [of "\<lambda>m. ()" ml the_df] by simp_all
  from t miss have "t \<in> set ?misses" by simp
  then obtain p where p: "p < length ?misses" "?misses ! p = t" by (metis in_set_conv_nth)
  have "?T ! (length ml + p) = drop (length ml) ?T ! p"
    using f(1) p(1) by simp
  also have "\<dots> = new_the_row t" using p by (simp add: f(2))
  finally have "?T ! (length ml + p) = new_the_row t" .
  moreover have "length ml + p < length ?T" using f(1) p(1) by simp
  ultimately show ?thesis by (intro exI [of _ "length ml + p"]) simp
qed

lemma key_of_of_qs: "key_of (of_qs q) = (q_country q, q_name_normalized q)"
  by (simp add: key_of_def of_qs_def)

lemma key_of_new_the_row: "key_of (new_the_row r) = src_key r"
  by (simp add: key_of_def new_the_row_def src_key_def)

lemma qs_keys: "key_of ` set (map of_qs qs_df) = (\<lambda>q. (q_country q, q_name_normalized q)) ` set qs_df"
  by (auto simp: key_of_of_qs image_iff)

lemma keys_after_the:
  "key_of ` set (merge_the ml rs) = key_of ` set ml \<union> src_key ` set rs"
proof -
  let ?T = "merge_the ml rs"
  let ?misses = "filter (\<lambda>r. src_key r \<notin> key_of ` set ml) rs"
  have f: "length ?T = length ml + length ?misses"
    "drop (length ml) ?T = map new_the_row ?misses"
    "\<forall>j<length ml. key_of (?T ! j) = key_of (ml ! j)"
    using merge_the_facts [of key_of ml rs] by (simp_all add: key_of_def)
  have "map key_of (take (length ml) ?T) = map key_of ml"
    using f(1,3) by (intro nth_equalityI) auto
  then have a: "key_of ` set (take (length ml) ?T) = key_of ` set ml"
    by (metis list.set_map)
  have "map key_of (drop (length ml) ?T) = map src_key ?misses"
    unfolding f(2) by (simp add: key_of_new_the_row)
  then have b: "key_of ` set (drop (length ml) ?T) = src_key ` set ?misses"
    by (metis list.set_map)
  have "set ?T = set (take (length ml) ?T) \<union> set (drop (length ml) ?T)"
    by (metis append_take_drop_id set_append)
  then have "key_of ` set ?T = key_of ` set ml \<union> src_key ` set ?misses"
    using a b by (simp add: image_Un)
  also have "\<dots> = key_of ` set ml \<union> src_key ` set rs" by auto
  finally show ?thesis .
qed

lemma step_written_row:
  assumes "j < length ml"
    and "rank_step set_rank new_row (create_lookup_map ml0) ml r ! j \<noteq> ml ! j"
  shows "j < length ml0 \<and> key_of (ml0 ! j) = src_key r"
proof (cases "create_lookup_map ml0 (src_key r)")
  case None
  with assms show ?thesis by (simp add: rank_step_def nth_append)
next
  case (Some i)
  then have e: "rank_step set_rank new_row (create_lookup_map ml0) ml r =
      ml[i := set_rank (ml ! i) (s_rank r)]"
    by (simp add: rank_step_def)
  have "i = j"
  proof (rule ccontr)
    assume "i \<noteq> j"
    then have "ml[i := set_rank (ml ! i) (s_rank r)] ! j = ml ! j" by simp
    with assms(2) show False unfolding e by simp
  qed
  with Some create_lookup_map_Some [of ml0 "src_key r" i] show ?thesis by simp
qed

lemma step_appends_iff:
  "rank_step set_rank new_row (create_lookup_map ml0) ml r = ml @ [new_row r] \<longleftrightarrow>
     src_key r \<notin> key_of ` set ml0"
proof (cases "create_lookup_map ml0 (src_key r)")
  case None
  then show ?thesis by (simp add: rank_step_def create_lookup_map_None [symmetric])
next
  case (Some i)
  then have "src_key r \<in> key_of ` set ml0"
    using create_lookup_map_None [of ml0 "src_key r"] by auto
  moreover have "length (rank_step set_rank new_row (create_lookup_map ml0) ml r) = length ml"
    using Some by (simp add: rank_step_def)
  then have "rank_step set_rank new_row (create_lookup_map ml0) ml r \<noteq> ml @ [new_row r]"
    by (metis length_append_singleton n_not_Suc_n)
  ultimately show ?thesis by simp
qed

text \<open>
  C2, as amended. Rows are matched on the pair (country, normalized name) only, and only
  against the rows accumulated before the pass of their table: a row of the THE or the
  US News table is written into an existing row exactly when a row at the start of the
  pass has the identical pair, and otherwise appended; the only row it can change has
  the identical pair, so rows that differ in country are never merged. Two rows of the
  same table are never merged with each other. Hence the output has one row per QS
  row, one per THE row whose pair no QS row has, and one per US News row whose pair
  no QS or THE row has.
\<close>

theorem exact_key_merge:
  "length (merge_datasets qs_df the_df usnews_df) =
     length qs_df +
     length (filter (\<lambda>r. (s_country r, s_name_normalized r) \<notin>
                          (\<lambda>q. (q_country q, q_name_normalized q)) ` set qs_df) the_df) +
     length (filter (\<lambda>r. (s_country r, s_name_normalized r) \<notin>
                          (\<lambda>q. (q_country q, q_name_normalized q)) ` set qs_df \<union>
                          (\<lambda>t. (s_country t, s_name_normalized t)) ` set the_df) usnews_df) \<and>
   (the_step (create_lookup_map start) ml r = ml @ [new_the_row r] \<longleftrightarrow>
      (s_country r, s_name_normalized r) \<notin> (\<lambda>m. (m_country m, m_name_normalized m)) ` set start) \<and>
   (usnews_step (create_lookup_map start) ml r = ml @ [new_usnews_row r] \<longleftrightarrow>
      (s_country r, s_name_normalized r) \<notin> (\<lambda>m. (m_country m, m_name_normalized m)) ` set start) \<and>
   (\<forall>j<length ml. the_step (create_lookup_map start) ml r ! j \<noteq> ml ! j \<longrightarrow>
      j < length start \<and> m_country (start ! j) = s_country r \<and>
      m_name_normalized (start ! j) = s_name_normalized r) \<and>
   (\<forall>j<length ml. usnews_step (create_lookup_map start) ml r ! j \<noteq> ml ! j \<longrightarrow>
      j < length start \<and> m_country (start ! j) = s_country r \<and>
      m_name_normalized (start ! j) = s_name_normalized r)"
proof -
  let ?Q = "map of_qs qs_df"
  let ?T = "merge_the ?Q the_df"
  have k: "key_of = (\<lambda>m. (m_country m, m_name_normalized m))"
    "src_key = (\<lambda>r. (s_country r, s_name_normalized r))"
    by (simp_all add: fun_eq_iff key_of_def src_key_def)
  have lT: "length ?T = length ?Q + length (filter (\<lambda>r. src_key r \<notin> key_of ` set ?Q) the_df)"
    using merge_the_facts [of "\<lambda>m. ()" ?Q the_df] by simp
  have lM: "length (merge_usnews ?T usnews_df) =
      length ?T + length (filter (\<lambda>r. src_key r \<notin> key_of ` set ?T) usnews_df)"
    using merge_usnews_facts [of "\<lambda>m. ()" ?T usnews_df] by simp
  have 1: "length (merge_datasets qs_df the_df usnews_df) =
     length qs_df +
     length (filter (\<lambda>r. src_key r \<notin> (\<lambda>q. (q_country q, q_name_normalized q)) ` set qs_df) the_df) +
     length (filter (\<lambda>r. src_key r \<notin> (\<lambda>q. (q_country q, q_name_normalized q)) ` set qs_df \<union>
                          src_key ` set the_df) usnews_df)"
    unfolding merge_datasets_def lM lT keys_after_the qs_keys by simp
  have 2: "the_step (create_lookup_map start) ml r = ml @ [new_the_row r] \<longleftrightarrow>
      src_key r \<notin> key_of ` set start"
    unfolding the_step_rank_step by (rule step_appends_iff)
  have 3: "usnews_step (create_lookup_map start) ml r = ml @ [new_usnews_row r] \<longleftrightarrow>
      src_key r \<notin> key_of ` set start"
    unfolding usnews_step_rank_step by (rule step_appends_iff)
  have 4: "\<forall>j<length ml. the_step (create_lookup_map start) ml r ! j \<noteq> ml ! j \<longrightarrow>
      j < length start \<and> key_of (start ! j) = src_key r"
    unfolding the_step_rank_step using step_written_row by blast
  have 5: "\<forall>j<length ml. usnews_step (create_lookup_map start) ml r ! j \<noteq> ml ! j \<longrightarrow>
      j < length start \<and> key_of (start ! j) = src_key r"
    unfolding usnews_step_rank_step using step_written_row by blast
  from 1 2 3 4 5 show ?thesis
    unfolding k by simp
qed

theorem exact_key_merge_witness:
  "0 < length [of_qs ex_qs] \<and>
   the_step (create_lookup_map [of_qs ex_qs]) [of_qs ex_qs] ex_the_mit ! 0 \<noteq> [of_qs ex_qs] ! 0 \<and>
   m_country ([of_qs ex_qs] ! 0) = s_country ex_the_mit \<and>
   m_name_normalized ([of_qs ex_qs] ! 0) = s_name_normalized ex_the_mit \<and>
   length (merge_datasets [ex_qs] [ex_the_mit, ex_the_oxford] []) = 2"
proof -
  have h1: "0 < length [of_qs ex_qs]" by simp
  have h2: "the_step (create_lookup_map [of_qs ex_qs]) [of_qs ex_qs] ex_the_mit ! 0 \<noteq> [of_qs ex_qs] ! 0"
    by code_simp
  note all = exact_key_merge [where start = "[of_qs ex_qs]" and ml = "[of_qs ex_qs]" and r = ex_the_mit
      and qs_df = "[ex_qs]" and the_df = "[ex_the_mit, ex_the_oxford]" and usnews_df = "[]"]
  note w = all [THEN conjunct2, THEN conjunct2, THEN conjunct2, THEN conjunct1]
  from w [THEN spec, THEN mp, OF h1, THEN mp, OF h2]
  have k: "m_country ([of_qs ex_qs] ! 0) = s_country ex_the_mit \<and>
      m_name_normalized ([of_qs ex_qs] ! 0) = s_name_normalized ex_the_mit" by (rule conjunct2)
  have l: "length (merge_datasets [ex_qs] [ex_the_mit, ex_the_oxford] []) = 2" by code_simp
  from h1 h2 k l show ?thesis by (intro conjI) simp_all
qed

text \<open>
  C2 as stated fails for two rows of the same table: two THE rows with the identical
  pair, which no QS row has, are both appended.
\<close>

theorem same_table_rows_not_merged:
  "(s_country ex_the_oxford, s_name_normalized ex_the_oxford) =
     (s_country ex_the_oxford2, s_name_normalized ex_the_oxford2) \<and>
   merge_datasets [] [ex_the_oxford, ex_the_oxford2] [] =
     [new_the_row ex_the_oxford, new_the_row ex_the_oxford2]"
  by code_simp

lemma qs_fields_the: "qs_fields (m\<lparr>m_the_rank := c\<rparr>) = qs_fields m"
  by (simp add: qs_fields_def)

lemma qs_fields_usnews: "qs_fields (m\<lparr>m_usnews_rank := c\<rparr>) = qs_fields m"
  by (simp add: qs_fields_def)

lemma qs_rows_kept:
  assumes "j < length qs_df"
  shows "qs_fields (merge_datasets qs_df the_df usnews_df ! j) = qs_fields (of_qs (qs_df ! j))"
proof -
  let ?Q = "map of_qs qs_df"
  let ?T = "merge_the ?Q the_df"
  have T: "length ?Q \<le> length ?T" "\<forall>j<length ?Q. qs_fields (?T ! j) = qs_fields (?Q ! j)"
    using merge_the_facts [of qs_fields ?Q the_df, OF qs_fields_the] by simp_all
  have M: "\<forall>j<length ?T. qs_fields (merge_usnews ?T usnews_df ! j) = qs_fields (?T ! j)"
    using merge_usnews_facts [of qs_fields ?T usnews_df, OF qs_fields_usnews] by simp
  from assms T have "j < length ?T" by simp
  with M have "qs_fields (merge_usnews ?T usnews_df ! j) = qs_fields (?T ! j)" by blast
  also have "\<dots> = qs_fields (?Q ! j)" using T(2) assms by simp
  finally show ?thesis using assms by (simp add: merge_datasets_def)
qed

lemma the_only_in_output:
  assumes t: "t \<in> set the_df"
    and miss: "(s_country t, s_name_normalized t) \<notin> (\<lambda>q. (q_country q, q_name_normalized q)) ` set qs_df"
  shows "\<exists>row\<in>set (merge_datasets qs_df the_df usnews_df).
      m_Name row = s_Name t \<and> m_country row = s_country t \<and>
      m_name_normalized row = s_name_normalized t \<and>
      m_qs_rank row = CNone \<and> m_the_rank row = s_rank t \<and>
      ((s_country t, s_name_normalized t) \<notin> (\<lambda>u. (s_country u, s_name_normalized u)) ` set usnews_df
         \<longrightarrow> row = new_the_row t)"
proof -
  let ?Q = "map of_qs qs_df"
  let ?T = "merge_the ?Q the_df"
  let ?M = "merge_usnews ?T usnews_df"
  let ?p = "\<lambda>m. (m_Name m, m_country m, m_name_normalized m, m_qs_rank m, m_the_rank m)"
  from miss have "src_key t \<notin> key_of ` set ?Q" unfolding qs_keys src_key_def .
  from the_only_row [OF t this] obtain j where
    j: "j < length ?T" "?T ! j = new_the_row t" by blast
  have M: "length ?T \<le> length ?M" "\<forall>j<length ?T. ?p (?M ! j) = ?p (?T ! j)"
    using merge_usnews_facts [of ?p ?T usnews_df] by simp_all
  from j M have jm: "j < length ?M" and eq: "?p (?M ! j) = ?p (new_the_row t)" by auto
  have un: "(s_country t, s_name_normalized t) \<notin> (\<lambda>u. (s_country u, s_name_normalized u)) ` set usnews_df
      \<longrightarrow> ?M ! j = new_the_row t"
  proof
    assume "(s_country t, s_name_normalized t) \<notin> (\<lambda>u. (s_country u, s_name_normalized u)) ` set usnews_df"
    then have "key_of (?T ! j) \<notin> src_key ` set usnews_df"
      unfolding j(2) key_of_new_the_row by (simp add: src_key_def image_iff)
    from merge_usnews_untouched [OF j(1) this] j(2) show "?M ! j = new_the_row t" by simp
  qed
  from jm have "?M ! j \<in> set ?M" by simp
  with eq un show ?thesis
    unfolding merge_datasets_def by (intro bexI [of _ "?M ! j"]) (simp_all add: new_the_row_def)
qed

text \<open>
  C4. On a hit, a step of either loop keeps the length of the list and every other
  row, and in the matched row changes the rank column of its own source only. On a
  miss it appends a new row in which the two other rank columns are \<open>None\<close>. In the
  output of \<open>merge_datasets\<close> every QS row keeps its name, country, normalized name, QS
  rank, status and coordinates; and a THE row whose key no QS row has gives an output
  row with its name and country, \<open>qs_rank\<close> \<open>None\<close> and its own \<open>the_rank\<close> (the whole
  new row, when no US News row has the key either).
\<close>

theorem cross_table_rank_merge:
  "(\<forall>i<length ml. lookup (s_country r, s_name_normalized r) = Some i \<longrightarrow>
      length (the_step lookup ml r) = length ml \<and>
      (\<forall>j<length ml. j \<noteq> i \<longrightarrow> the_step lookup ml r ! j = ml ! j) \<and>
      qs_fields (the_step lookup ml r ! i) = qs_fields (ml ! i) \<and>
      m_usnews_rank (the_step lookup ml r ! i) = m_usnews_rank (ml ! i) \<and>
      m_the_rank (the_step lookup ml r ! i) = s_rank r) \<and>
   (\<forall>i<length ml. lookup (s_country r, s_name_normalized r) = Some i \<longrightarrow>
      length (usnews_step lookup ml r) = length ml \<and>
      (\<forall>j<length ml. j \<noteq> i \<longrightarrow> usnews_step lookup ml r ! j = ml ! j) \<and>
      qs_fields (usnews_step lookup ml r ! i) = qs_fields (ml ! i) \<and>
      m_the_rank (usnews_step lookup ml r ! i) = m_the_rank (ml ! i) \<and>
      m_usnews_rank (usnews_step lookup ml r ! i) = s_rank r) \<and>
   (lookup (s_country r, s_name_normalized r) = None \<longrightarrow>
      the_step lookup ml r = ml @ [new_the_row r] \<and>
      usnews_step lookup ml r = ml @ [new_usnews_row r]) \<and>
   m_qs_rank (new_the_row r) = CNone \<and> m_usnews_rank (new_the_row r) = CNone \<and>
   m_the_rank (new_the_row r) = s_rank r \<and>
   m_qs_rank (new_usnews_row r) = CNone \<and> m_the_rank (new_usnews_row r) = CNone \<and>
   m_usnews_rank (new_usnews_row r) = s_rank r \<and>
   (\<forall>j<length qs_df.
      qs_fields (merge_datasets qs_df the_df usnews_df ! j) = qs_fields (of_qs (qs_df ! j))) \<and>
   (\<forall>t\<in>set the_df.
      (s_country t, s_name_normalized t) \<notin> (\<lambda>q. (q_country q, q_name_normalized q)) ` set qs_df \<longrightarrow>
      (\<exists>row\<in>set (merge_datasets qs_df the_df usnews_df).
         m_Name row = s_Name t \<and> m_country row = s_country t \<and>
         m_name_normalized row = s_name_normalized t \<and>
         m_qs_rank row = CNone \<and> m_the_rank row = s_rank t \<and>
         ((s_country t, s_name_normalized t) \<notin>
            (\<lambda>u. (s_country u, s_name_normalized u)) ` set usnews_df \<longrightarrow> row = new_the_row t)))"
proof -
  have 1: "\<forall>i<length ml. lookup (s_country r, s_name_normalized r) = Some i \<longrightarrow>
      length (the_step lookup ml r) = length ml \<and>
      (\<forall>j<length ml. j \<noteq> i \<longrightarrow> the_step lookup ml r ! j = ml ! j) \<and>
      qs_fields (the_step lookup ml r ! i) = qs_fields (ml ! i) \<and>
      m_usnews_rank (the_step lookup ml r ! i) = m_usnews_rank (ml ! i) \<and>
      m_the_rank (the_step lookup ml r ! i) = s_rank r"
    by (simp add: the_step_def qs_fields_def)
  have 2: "\<forall>i<length ml. lookup (s_country r, s_name_normalized r) = Some i \<longrightarrow>
      length (usnews_step lookup ml r) = length ml \<and>
      (\<forall>j<length ml. j \<noteq> i \<longrightarrow> usnews_step lookup ml r ! j = ml ! j) \<and>
      qs_fields (usnews_step lookup ml r ! i) = qs_fields (ml ! i) \<and>
      m_the_rank (usnews_step lookup ml r ! i) = m_the_rank (ml ! i) \<and>
      m_usnews_rank (usnews_step lookup ml r ! i) = s_rank r"
    by (simp add: usnews_step_def qs_fields_def)
  have 3: "lookup (s_country r, s_name_normalized r) = None \<longrightarrow>
      the_step lookup ml r = ml @ [new_the_row r] \<and>
      usnews_step lookup ml r = ml @ [new_usnews_row r]"
    by (simp add: the_step_def usnews_step_def)
  have 4: "m_qs_rank (new_the_row r) = CNone \<and> m_usnews_rank (new_the_row r) = CNone \<and>
     m_the_rank (new_the_row r) = s_rank r \<and>
     m_qs_rank (new_usnews_row r) = CNone \<and> m_the_rank (new_usnews_row r) = CNone \<and>
     m_usnews_rank (new_usnews_row r) = s_rank r"
    by (simp add: new_the_row_def new_usnews_row_def)
  have 5: "\<forall>j<length qs_df.
      qs_fields (merge_datasets qs_df the_df usnews_df ! j) = qs_fields (of_qs (qs_df ! j))"
    using qs_rows_kept by blast
  have 6: "\<forall>t\<in>set the_df.
      (s_country t, s_name_normalized t) \<notin> (\<lambda>q. (q_country q, q_name_normalized q)) ` set qs_df \<longrightarrow>
      (\<exists>row\<in>set (merge_datasets qs_df the_df usnews_df).
         m_Name row = s_Name t \<and> m_country row = s_country t \<and>
         m_name_normalized row = s_name_normalized t \<and>
         m_qs_rank row = CNone \<and> m_the_rank row = s_rank t \<and>
         ((s_country t, s_name_normalized t) \<notin>
            (\<lambda>u. (s_country u, s_name_normalized u)) ` set usnews_df \<longrightarrow> row = new_the_row t))"
    using the_only_in_output by blast
  from 1 2 3 4 5 6 show ?thesis by blast
qed

theorem cross_table_rank_merge_witness:
  "ex_the_oxford \<in> set [ex_the_mit, ex_the_oxford] \<and>
   (s_country ex_the_oxford, s_name_normalized ex_the_oxford) \<notin>
      (\<lambda>q. (q_country q, q_name_normalized q)) ` set [ex_qs] \<and>
   (\<exists>row\<in>set (merge_datasets [ex_qs] [ex_the_mit, ex_the_oxford] []).
      m_Name row = s_Name ex_the_oxford \<and> m_qs_rank row = CNone \<and>
      m_the_rank row = s_rank ex_the_oxford) \<and>
   merge_datasets [ex_qs] [ex_the_mit, ex_the_oxford] [] =
     [(of_qs ex_qs)\<lparr>m_the_rank := CInt 2\<rparr>, new_the_row ex_the_oxford]"
proof -
  have t: "ex_the_oxford \<in> set [ex_the_mit, ex_the_oxford]" by simp
  have miss: "(s_country ex_the_oxford, s_name_normalized ex_the_oxford) \<notin>
      (\<lambda>q. (q_country q, q_name_normalized q)) ` set [ex_qs]"
    by (simp add: ex_the_oxford_def ex_qs_def)
  have ev: "merge_datasets [ex_qs] [ex_the_mit, ex_the_oxford] [] =
     [(of_qs ex_qs)\<lparr>m_the_rank := CInt 2\<rparr>, new_the_row ex_the_oxford]"
    by code_simp
  note all = cross_table_rank_merge [where qs_df = "[ex_qs]" and the_df = "[ex_the_mit, ex_the_oxford]"
        and usnews_df = "[]" and ml = "[]" and lookup = Map.empty and r = ex_the_mit,
        THEN conjunct2, THEN conjunct2, THEN conjunct2, THEN conjunct2, THEN conjunct2,
        THEN conjunct2, THEN conjunct2, THEN conjunct2, THEN conjunct2, THEN conjunct2]
  from bspec [OF all t, THEN mp, OF miss]
  obtain row where row: "row \<in> set (merge_datasets [ex_qs] [ex_the_mit, ex_the_oxford] [])"
    "m_Name row = s_Name ex_the_oxford" "m_qs_rank row = CNone" "m_the_rank row = s_rank ex_the_oxford"
    by blast
  then have "\<exists>row\<in>set (merge_datasets [ex_qs] [ex_the_mit, ex_the_oxford] []).
      m_Name row = s_Name ex_the_oxford \<and> m_qs_rank row = CNone \<and>
      m_the_rank row = s_rank ex_the_oxford" by blast
  with t miss ev show ?thesis by (intro conjI)
qed

section \<open>The deduplication loop of the script and missing cells\<close>

lemma uni_step_first_match:
  "find (\<lambda>e. ratio (u_name_normalized row) e \<ge> similarity_threshold) seen_names = Some m \<Longrightarrow>
   m \<noteq> [] \<Longrightarrow>
   uni_step ratio (seen_names, unique_records) row = (seen_names, update_first m row unique_records)"
  by (simp add: uni_step_def)

lemma uni_step_no_match:
  "find (\<lambda>e. ratio (u_name_normalized row) e \<ge> similarity_threshold) seen_names = None \<Longrightarrow>
   fst (uni_step ratio (seen_names, unique_records) row) = seen_names @ [u_name_normalized row]"
  by (simp add: uni_step_def)

lemma ex_uni_names: "map u_name_normalized ex_uni_rows = ['''', '''']"
  by code_simp

text \<open>
  C9 at the input where the code departs from it. Both names normalize to the empty
  string, whose ratio with itself is 100 in rapidfuzz, so the second row finds the
  accepted name; that name is the empty string, the test \<open>if matched_name:\<close> fails, and
  the row is appended as a second canonical name instead of being merged.
\<close>

theorem empty_name_appended_again:
  "map u_name_normalized ex_uni_rows = ['''', ''''] \<and>
   equal_ratio '''' '''' \<ge> similarity_threshold \<and>
   fst (deduplicate_uni equal_ratio ex_uni_rows) = ['''', ''''] \<and>
   map r_name (snd (deduplicate_uni equal_ratio ex_uni_rows)) = [CStr ''???'', CStr ''!!!'']"
proof -
  have n: "uni_steps ''???'' = []" "uni_steps ''!!!'' = []" by code_simp+
  have r: "equal_ratio '''' '''' \<ge> similarity_threshold"
    by (simp add: equal_ratio_def similarity_threshold_def)
  have d: "deduplicate_uni equal_ratio ex_uni_rows =
     (['''', ''''],
      [\<lparr>r_name = CStr ''???'', r_name_normalized = [], r_country = CStr ''Unknown'',
         r_sources = {''uniRank-World''}\<rparr>,
       \<lparr>r_name = CStr ''!!!'', r_name_normalized = [], r_country = CStr ''Unknown'',
         r_sources = {''uniRank-World''}\<rparr>])"
    using r by (simp add: deduplicate_uni_def ex_uni_rows_def n uni_step_def)
  show ?thesis using r by (simp add: d ex_uni_names)
qed

text \<open>
  C8 at the input where the code departs from it. On a missing cell the three
  functions of \<open>merge_rankings.py\<close> return the empty string or \<open>None\<close>, and the
  \<open>normalize_name\<close> of \<open>merge_uni.py\<close> raises \<open>AttributeError\<close>.
\<close>

theorem normalize_name_uni_raises_on_missing:
  "normalize_name_uni CNaN = Inl AttributeError \<and>
   normalize_name_uni CNone = Inl AttributeError \<and>
   normalize_name CNaN = [] \<and> normalize_name CNone = [] \<and>
   normalize_country CNaN = [] \<and> normalize_country CNone = [] \<and>
   normalize_nature_of_running CNaN = None \<and> normalize_nature_of_running CNone = None"
  by (simp add: normalize_name_def normalize_country_def normalize_nature_of_running_def)

end
